theory Spec2Isabelle
  imports Main "HOL-Library.Word" "HOL-Library.AList"
begin

unbundle bit_operations_syntax

section \<open>Barman cloud backup and WAL archiver: a shallow embedding\<close>

text \<open>
  The development follows \<^verbatim>\<open>barman/clients/cloud_backup.py\<close> and
  \<^verbatim>\<open>barman/wal_archiver.py\<close>. Python objects become records, mutation becomes
  state passing, exceptions become values of a sum type, and calls that leave the
  program (the object store, the file system, PostgreSQL, the \<^verbatim>\<open>tarfile\<close> library)
  are either recorded in an explicit log or supplied as parameters.
\<close>

subsection \<open>Bytes, exceptions and the object store log\<close>

type_synonym bytes = "8 word list"

text \<open>
  Python exceptions, by class. \<open>SystemExit\<close> derives from \<^verbatim>\<open>BaseException\<close> and is
  therefore not matched by \<^verbatim>\<open>except Exception\<close>; every other class listed here derives
  from \<^verbatim>\<open>Exception\<close>. \<open>ConfigurationError\<close> is the class named by the specification;
  no statement of the sources raises it.
\<close>

datatype exn =
    ValueError string
  | ConfigurationError string
  | OSError string
  | EndpointConnectionError
  | ClientError string
  | ProfileNotFound string
  | PostgresConnectionError
  | Psycopg2Error
  | OtherException string
  | SystemExit int

fun is_Exception :: "exn \<Rightarrow> bool" where
  "is_Exception (SystemExit _) = False"
| "is_Exception _ = True"

text \<open>A part handle, as \<^verbatim>\<open>CloudInterface.upload_part\<close> returns it.\<close>

record part =
  PartNumber :: int
  ETag :: string

text \<open>The calls a \<^verbatim>\<open>CloudInterface\<close> sends to the object store, in the order sent.\<close>

datatype cloud_call =
    create_multipart_upload string
  | upload_part string int bytes
  | complete_multipart_upload string "part list"
  | upload_fileobj string

subsection \<open>\<^verbatim>\<open>S3TarUploader\<close>\<close>

definition DEFAULT_CHUNK_SIZE :: int where
  "DEFAULT_CHUNK_SIZE = push_bit 21 10"

text \<open>
  One member handed to \<^verbatim>\<open>TarFile.add\<close> (a path of the file system) or to
  \<^verbatim>\<open>TarFile.addfile\<close> (the contents of a file object), with the archive name and the
  \<^verbatim>\<open>recursive\<close> flag of the call.
\<close>

datatype tar_source = FromPath string | FromFileobj bytes

record tar_member =
  source :: tar_source
  arcname :: string
  recursive :: bool

text \<open>
  The uploader object. \<open>mpu\<close> is the multipart upload handle (\<open>None\<close> until the first
  flush), \<open>buffer\<close> the contents of the \<^verbatim>\<open>BytesIO\<close>, whose position is always its end
  (it is only appended to, or rewound and truncated together), so that
  \<^verbatim>\<open>buffer.tell()\<close> is the length. \<open>tar\<close> lists the members added to the
  \<^verbatim>\<open>TarFile\<close> that writes into this object.
\<close>

record S3TarUploader =
  key :: string
  mpu :: "string option"
  chunk_size :: int
  buffer :: bytes
  counter :: int
  parts :: "part list"
  tar :: "tar_member list"

definition S3TarUploader_init :: "string \<Rightarrow> int \<Rightarrow> S3TarUploader" where
  "S3TarUploader_init k cs =
     \<lparr>key = k, mpu = None, chunk_size = cs, buffer = [], counter = 1, parts = [], tar = []\<rparr>"

text \<open>
  \<^verbatim>\<open>flush\<close>: create the multipart upload on first use, upload the whole buffer as the
  part numbered \<open>counter\<close>, remember the part handle, advance the counter, empty the
  buffer. The entity tag of the handle is chosen by the service: \<open>etag\<close> stands for it.
  The result is the new object and the calls sent.
\<close>

definition S3TarUploader_flush :: "(bytes \<Rightarrow> string) \<Rightarrow> S3TarUploader \<Rightarrow> S3TarUploader \<times> cloud_call list" where
  "S3TarUploader_flush etag u =
     (let created = (if mpu u = None then [create_multipart_upload (key u)] else []);
          u1 = (if mpu u = None then u\<lparr>mpu := Some (key u)\<rparr> else u);
          p = \<lparr>PartNumber = counter u1, ETag = etag (buffer u1)\<rparr>
      in (u1\<lparr>parts := parts u1 @ [p], counter := counter u1 + 1, buffer := []\<rparr>,
          created @ [upload_part (key u1) (counter u1) (buffer u1)]))"

definition S3TarUploader_write :: "(bytes \<Rightarrow> string) \<Rightarrow> S3TarUploader \<Rightarrow> bytes \<Rightarrow> S3TarUploader \<times> cloud_call list" where
  "S3TarUploader_write etag u buf =
     (if int (length (buffer u)) > chunk_size u
      then (let (u1, sent) = S3TarUploader_flush etag u in (u1\<lparr>buffer := buffer u1 @ buf\<rparr>, sent))
      else (u\<lparr>buffer := buffer u @ buf\<rparr>, []))"

text \<open>A sequence of \<^verbatim>\<open>write\<close> calls, as the tar stream issues them.\<close>

fun writes :: "(bytes \<Rightarrow> string) \<Rightarrow> S3TarUploader \<Rightarrow> bytes list \<Rightarrow> S3TarUploader \<times> cloud_call list" where
  "writes etag u [] = (u, [])"
| "writes etag u (b # bs) =
     (let (u1, s1) = S3TarUploader_write etag u b; (u2, s2) = writes etag u1 bs in (u2, s1 @ s2))"

text \<open>
  \<^verbatim>\<open>close\<close>: closing the tar stream writes its trailer through \<^verbatim>\<open>write\<close>
  (\<open>trailer\<close> is the list of buffers the library hands over), then the rest is
  flushed and the upload completed with the parts collected so far.
\<close>

definition S3TarUploader_close :: "(bytes \<Rightarrow> string) \<Rightarrow> bytes list \<Rightarrow> S3TarUploader \<Rightarrow> S3TarUploader \<times> cloud_call list" where
  "S3TarUploader_close etag trailer u =
     (let (u1, s1) = writes etag u trailer;
          (u2, s2) = S3TarUploader_flush etag u1
      in (u2, s1 @ s2 @ [complete_multipart_upload (key u2) (parts u2)]))"

text \<open>Readers of the log.\<close>

fun part_numbers :: "cloud_call list \<Rightarrow> int list" where
  "part_numbers [] = []"
| "part_numbers (upload_part k n b # cs) = n # part_numbers cs"
| "part_numbers (c # cs) = part_numbers cs"

fun part_bodies :: "cloud_call list \<Rightarrow> bytes list" where
  "part_bodies [] = []"
| "part_bodies (upload_part k n b # cs) = b # part_bodies cs"
| "part_bodies (c # cs) = part_bodies cs"

fun completions :: "cloud_call list \<Rightarrow> (string \<times> part list) list" where
  "completions [] = []"
| "completions (complete_multipart_upload k ps # cs) = (k, ps) # completions cs"
| "completions (c # cs) = completions cs"

text \<open>A whole life of one uploader: created, written to, closed.\<close>

definition upload_session :: "(bytes \<Rightarrow> string) \<Rightarrow> string \<Rightarrow> int \<Rightarrow> bytes list \<Rightarrow> bytes list \<Rightarrow> S3TarUploader \<times> cloud_call list" where
  "upload_session etag k cs ws trailer =
     (let (u1, s1) = writes etag (S3TarUploader_init k cs) ws;
          (u2, s2) = S3TarUploader_close etag trailer u1
      in (u2, s1 @ s2))"


subsection \<open>Paths and the directory walk\<close>

text \<open>\<^verbatim>\<open>os.path.join\<close> of two components and \<^verbatim>\<open>os.path.basename\<close>, on POSIX.\<close>

definition path_join :: "string \<Rightarrow> string \<Rightarrow> string" where
  "path_join a b =
     (if b \<noteq> [] \<and> hd b = CHR ''/'' then b
      else if a = [] \<or> last a = CHR ''/'' then a @ b
      else a @ ''/'' @ b)"

definition basename :: "string \<Rightarrow> string" where
  "basename p = rev (takeWhile (\<lambda>c. c \<noteq> CHR ''/'') (rev p))"

definition startswith :: "string \<Rightarrow> string \<Rightarrow> bool" where
  "startswith s p = (take (length p) s = p)"

text \<open>
  A directory as \<^verbatim>\<open>os.walk\<close> sees it: the names of its non-directory entries and its
  subdirectories. Symbolic links to directories are listed by \<^verbatim>\<open>os.walk\<close> among the
  directory names but not entered; \<^verbatim>\<open>upload_directory\<close> never reads that list, so they
  leave no trace and the model omits them.
\<close>

datatype dirtree = Dir (files: "string list") (subdirs: "(string \<times> dirtree) list")

text \<open>
  \<^verbatim>\<open>os.walk(src)\<close>, top down: a directory is yielded before its subdirectories, and
  every subdirectory is entered, whatever the loop body did with its parent (the body of
  \<^verbatim>\<open>upload_directory\<close> does not touch the list of directory names). A directory is
  identified by the names leading to it from \<^verbatim>\<open>src\<close>.
\<close>

fun walk :: "string list \<Rightarrow> dirtree \<Rightarrow> (string list \<times> string list) list"
  and walk_subdirs :: "string list \<Rightarrow> (string \<times> dirtree) list \<Rightarrow> (string list \<times> string list) list" where
  "walk rel (Dir fs ds) = (rel, fs) # walk_subdirs rel ds"
| "walk_subdirs rel [] = []"
| "walk_subdirs rel ((n, t) # ds) = walk (rel @ [n]) t @ walk_subdirs rel ds"

text \<open>The \<^verbatim>\<open>root\<close> that \<^verbatim>\<open>os.walk\<close> yields for a directory, and its \<^verbatim>\<open>os.path.relpath\<close> to \<^verbatim>\<open>src\<close>.\<close>

definition walk_root :: "string \<Rightarrow> string list \<Rightarrow> string" where
  "walk_root src rel = foldl path_join src rel"

fun relpath :: "string list \<Rightarrow> string" where
  "relpath [] = ''.''"
| "relpath [n] = n"
| "relpath (n # ns) = n @ ''/'' @ relpath ns"

text \<open>The directory found by following names from the top.\<close>

fun dir_at :: "dirtree \<Rightarrow> string list \<Rightarrow> dirtree option" where
  "dir_at t [] = Some t"
| "dir_at (Dir fs ds) (n # ns) = (case map_of ds n of None \<Rightarrow> None | Some t \<Rightarrow> dir_at t ns)"

subsection \<open>What the code observes of its surroundings\<close>

text \<open>
  \<open>path_allowed\<close> is \<^verbatim>\<open>barman.fs.path_allowed(exclude, include, path, is_dir)\<close>, which is
  not part of the sources at hand and is therefore a parameter. \<open>os_walk\<close> gives the
  tree under a path (\<open>None\<close> when the path is not a directory: \<^verbatim>\<open>os.walk\<close> then yields
  nothing), \<open>os_path_exists\<close> is \<^verbatim>\<open>os.path.exists\<close>, which follows symbolic links, and
  \<open>os_path_lexists\<close> is \<^verbatim>\<open>os.path.lexists\<close>, which does not (\<^verbatim>\<open>lstat\<close> succeeds: true of a
  dangling link too). \<open>tar_blocks\<close> are the buffers the
  tar stream hands to \<^verbatim>\<open>write\<close> while a member is added, \<open>tar_trailer\<close> those it hands
  over when closed, and \<open>s3_etag\<close> is the entity tag the store answers for a part.
\<close>

record env =
  path_allowed :: "string list option \<Rightarrow> string list option \<Rightarrow> string \<Rightarrow> bool \<Rightarrow> bool"
  os_walk :: "string \<Rightarrow> dirtree option"
  os_path_exists :: "string \<Rightarrow> bool"
  os_path_lexists :: "string \<Rightarrow> bool"
  tar_blocks :: "tar_member \<Rightarrow> bytes list"
  tar_trailer :: "tar_member list \<Rightarrow> bytes list"
  s3_etag :: "bytes \<Rightarrow> string"

subsection \<open>\<^verbatim>\<open>S3UploadController\<close>\<close>

text \<open>
  \<open>s3_list\<close> is the dictionary from destination names to uploaders (or \<open>None\<close> once
  closed), kept in insertion order; \<open>cloud\<close> logs the calls sent through the
  \<^verbatim>\<open>cloud_interface\<close> the controller and its uploaders share.
\<close>

record S3UploadController =
  key_prefix :: string
  compression :: "string option"
  s3_list :: "(string \<times> S3TarUploader option) list"
  cloud :: "cloud_call list"

definition S3UploadController_init :: "string \<Rightarrow> string option \<Rightarrow> S3UploadController" where
  "S3UploadController_init kp cmpr =
     \<lparr>key_prefix = (if kp \<noteq> [] \<and> hd kp = CHR ''/'' then tl kp else kp),
      compression = cmpr, s3_list = [], cloud = []\<rparr>"

definition build_dest_name :: "S3UploadController \<Rightarrow> string \<Rightarrow> string" where
  "build_dest_name c name =
     (if compression c = Some ''gz'' then name @ ''.tar.gz''
      else if compression c = Some ''bz2'' then name @ ''.tar.bz2''
      else name @ ''.tar'')"

text \<open>
  \<^verbatim>\<open>_get_tar\<close>: a new uploader is stored under the name unless one is there already
  (an uploader object is always true; \<open>None\<close> is not).
\<close>

definition get_tar :: "S3UploadController \<Rightarrow> string \<Rightarrow> S3UploadController" where
  "get_tar c name =
     (case map_of (s3_list c) name of
        Some (Some u) \<Rightarrow> c
      | _ \<Rightarrow> c\<lparr>s3_list := AList.update name
                 (Some (S3TarUploader_init (path_join (key_prefix c) (build_dest_name c name))
                          DEFAULT_CHUNK_SIZE))
                 (s3_list c)\<rparr>)"

text \<open>
  \<^verbatim>\<open>tar.add\<close> and \<^verbatim>\<open>tar.addfile\<close> on the stream obtained for a name: the member joins
  the archive and its blocks go through the uploader's \<^verbatim>\<open>write\<close>.
\<close>

definition tar_add :: "env \<Rightarrow> string \<Rightarrow> S3UploadController \<Rightarrow> tar_member \<Rightarrow> S3UploadController" where
  "tar_add e name c m =
     (case map_of (s3_list c) name of
        Some (Some u) \<Rightarrow>
          (let (u1, sent) = writes (s3_etag e) u (tar_blocks e m)
           in c\<lparr>s3_list := AList.update name (Some (u1\<lparr>tar := tar u1 @ [m]\<rparr>)) (s3_list c),
                cloud := cloud c @ sent\<rparr>)
      | _ \<Rightarrow> c)"

text \<open>The body of the loop of \<^verbatim>\<open>upload_directory\<close> for one directory of the walk.\<close>

definition directory_members ::
  "env \<Rightarrow> string \<Rightarrow> string list option \<Rightarrow> string list option \<Rightarrow> string list \<times> string list \<Rightarrow> tar_member list" where
  "directory_members e src exclude include d =
     (let root = walk_root src (fst d); tar_root = relpath (fst d)
      in if \<not> path_allowed e exclude include tar_root True then []
         else \<lparr>source = FromPath root, arcname = tar_root, recursive = False\<rparr> #
              map (\<lambda>item. \<lparr>source = FromPath (path_join root item),
                            arcname = path_join tar_root item, recursive = True\<rparr>)
                  (filter (\<lambda>item. path_allowed e exclude include (path_join tar_root item) False)
                     (snd d)))"

definition upload_directory_members ::
  "env \<Rightarrow> string \<Rightarrow> string list option \<Rightarrow> string list option \<Rightarrow> dirtree \<Rightarrow> tar_member list" where
  "upload_directory_members e src exclude include t =
     concat (map (directory_members e src exclude include) (walk [] t))"

definition upload_directory ::
  "env \<Rightarrow> S3UploadController \<Rightarrow> string \<Rightarrow> string \<Rightarrow> string \<Rightarrow> string list option \<Rightarrow> string list option
     \<Rightarrow> S3UploadController \<times> exn option" where
  "upload_directory e c label src dst exclude include =
     (let c1 = get_tar c dst
      in case os_walk e src of
           None \<Rightarrow> (c1, None)
         | Some t \<Rightarrow> (foldl (tar_add e dst) c1 (upload_directory_members e src exclude include t), None))"

text \<open>
  \<^verbatim>\<open>add_file\<close>: an optional file for which \<^verbatim>\<open>os.path.exists\<close> is false is skipped
  before the stream is even asked for. Otherwise \<^verbatim>\<open>tar.add\<close> reads the entry with
  \<^verbatim>\<open>lstat\<close>, without following a link, and fails when there is no entry at all.
\<close>

definition add_file ::
  "env \<Rightarrow> S3UploadController \<Rightarrow> string \<Rightarrow> string \<Rightarrow> string \<Rightarrow> string \<Rightarrow> bool \<Rightarrow> S3UploadController \<times> exn option" where
  "add_file e c label src dst path optional =
     (if optional \<and> \<not> os_path_exists e src then (c, None)
      else (let c1 = get_tar c dst
            in if \<not> os_path_lexists e src then (c1, Some (OSError src))
               else (tar_add e dst c1 \<lparr>source = FromPath src, arcname = path, recursive = True\<rparr>, None)))"

definition add_fileobj ::
  "env \<Rightarrow> S3UploadController \<Rightarrow> string \<Rightarrow> bytes \<Rightarrow> string \<Rightarrow> string \<Rightarrow> S3UploadController \<times> exn option" where
  "add_fileobj e c label fileobj dst path =
     (let c1 = get_tar c dst
      in (tar_add e dst c1 \<lparr>source = FromFileobj fileobj, arcname = path, recursive = True\<rparr>, None))"

text \<open>\<^verbatim>\<open>close\<close>: every name of the dictionary in turn; an open uploader is closed, and the
  entry becomes \<open>None\<close> in either case.\<close>

definition close_name :: "env \<Rightarrow> S3UploadController \<Rightarrow> string \<Rightarrow> S3UploadController" where
  "close_name e c name =
     (case map_of (s3_list c) name of
        Some (Some s3) \<Rightarrow>
          c\<lparr>cloud := cloud c @ snd (S3TarUploader_close (s3_etag e) (tar_trailer e (tar s3)) s3),
            s3_list := AList.update name None (s3_list c)\<rparr>
      | _ \<Rightarrow> c\<lparr>s3_list := AList.update name None (s3_list c)\<rparr>)"

definition S3UploadController_close :: "env \<Rightarrow> S3UploadController \<Rightarrow> S3UploadController" where
  "S3UploadController_close e c = foldl (close_name e) c (map fst (s3_list c))"

text \<open>The calls made on a controller, as data, and a sequence of them: an exception ends it.\<close>

datatype controller_call =
    Upload_directory string string string "string list option" "string list option"
  | Add_file string string string string bool
  | Add_fileobj string bytes string string

fun call_dst :: "controller_call \<Rightarrow> string" where
  "call_dst (Upload_directory label src dst exclude include) = dst"
| "call_dst (Add_file label src dst path optional) = dst"
| "call_dst (Add_fileobj label fileobj dst path) = dst"

fun perform :: "env \<Rightarrow> S3UploadController \<Rightarrow> controller_call \<Rightarrow> S3UploadController \<times> exn option" where
  "perform e c (Upload_directory label src dst exclude include) =
     upload_directory e c label src dst exclude include"
| "perform e c (Add_file label src dst path optional) = add_file e c label src dst path optional"
| "perform e c (Add_fileobj label fileobj dst path) = add_fileobj e c label fileobj dst path"

fun run :: "env \<Rightarrow> S3UploadController \<Rightarrow> controller_call list \<Rightarrow> S3UploadController \<times> exn option" where
  "run e c [] = (c, None)"
| "run e c (k # ks) =
     (case perform e c k of
        (c1, Some x) \<Rightarrow> (c1, Some x)
      | (c1, None) \<Rightarrow> run e c1 ks)"

text \<open>The members a stream holds, by destination name (none when there is no open stream).\<close>

definition stream_members :: "S3UploadController \<Rightarrow> string \<Rightarrow> tar_member list" where
  "stream_members c name = (case map_of (s3_list c) name of Some (Some u) \<Rightarrow> tar u | _ \<Rightarrow> [])"

definition streams_of :: "(string \<times> S3TarUploader option) list \<Rightarrow> (string \<times> S3TarUploader) list" where
  "streams_of al = concat (map (\<lambda>p. case snd p of None \<Rightarrow> [] | Some u \<Rightarrow> [(fst p, u)]) al)"

definition open_streams :: "S3UploadController \<Rightarrow> (string \<times> S3TarUploader) list" where
  "open_streams c = streams_of (s3_list c)"

definition closed_entry :: "string \<times> S3TarUploader option \<Rightarrow> string \<times> S3TarUploader option" where
  "closed_entry p = (fst p, None)"

text \<open>
  What a call contributes to the archive of its destination: the members of the walk
  for a directory, the file itself, or the file object.
\<close>

fun call_members :: "env \<Rightarrow> controller_call \<Rightarrow> tar_member list" where
  "call_members e (Upload_directory label src dst exclude include) =
     (case os_walk e src of None \<Rightarrow> [] | Some t \<Rightarrow> upload_directory_members e src exclude include t)"
| "call_members e (Add_file label src dst path optional) =
     (if (optional \<and> \<not> os_path_exists e src) \<or> \<not> os_path_lexists e src then []
      else [\<lparr>source = FromPath src, arcname = path, recursive = True\<rparr>])"
| "call_members e (Add_fileobj label fileobj dst path) =
     [\<lparr>source = FromFileobj fileobj, arcname = path, recursive = True\<rparr>]"

text \<open>Whether a call reaches \<^verbatim>\<open>_get_tar\<close>: all do, but for a missing optional file.\<close>

fun asks_for_stream :: "env \<Rightarrow> controller_call \<Rightarrow> bool" where
  "asks_for_stream e (Add_file label src dst path optional) = (\<not> (optional \<and> \<not> os_path_exists e src))"
| "asks_for_stream e k = True"

text \<open>The exception a call ends with, if any: a file that is not skipped and has no entry.\<close>

fun raises :: "env \<Rightarrow> controller_call \<Rightarrow> exn option" where
  "raises e (Add_file label src dst path optional) =
     (if \<not> (optional \<and> \<not> os_path_exists e src) \<and> \<not> os_path_lexists e src
      then Some (OSError src) else None)"
| "raises e k = None"

text \<open>What \<^verbatim>\<open>close\<close> of the controller sends for the streams that are open, in order.\<close>

definition closing_calls :: "env \<Rightarrow> (string \<times> S3TarUploader) list \<Rightarrow> cloud_call list" where
  "closing_calls e streams =
     concat (map (\<lambda>p. snd (S3TarUploader_close (s3_etag e) (tar_trailer e (tar (snd p))) (snd p))) streams)"

text \<open>Whether a destination has an open stream, and whether none has.\<close>

definition has_stream :: "S3UploadController \<Rightarrow> string \<Rightarrow> bool" where
  "has_stream c name = (case map_of (s3_list c) name of Some (Some u) \<Rightarrow> True | _ \<Rightarrow> False)"

definition quiescent :: "S3UploadController \<Rightarrow> bool" where
  "quiescent c = (distinct (map fst (s3_list c)) \<and> open_streams c = [])"

text \<open>No entry of the dictionary has been closed yet.\<close>

definition no_closed_entry :: "S3UploadController \<Rightarrow> bool" where
  "no_closed_entry c = (None \<notin> snd ` set (s3_list c))"

subsection \<open>\<^verbatim>\<open>S3BackupUploader.backup_copy\<close>\<close>

text \<open>Python's \<^verbatim>\<open>'%s' % n\<close> for a natural number.\<close>

definition digit :: "nat \<Rightarrow> char" where
  "digit d = ''0123456789'' ! d"

fun str_nat :: "nat \<Rightarrow> string" where
  "str_nat n = (if n < 10 then [digit n] else str_nat (n div 10) @ [digit (n mod 10)])"

declare str_nat.simps [simp del]

record Tablespace =
  name :: string
  oid :: nat
  location :: string

record ConfigFile =
  file_type :: string
  file_path :: string

text \<open>
  Of \<^verbatim>\<open>BackupInfo\<close>, what \<^verbatim>\<open>backup_copy\<close> reads: \<open>tablespaces\<close> may be \<open>None\<close>, and
  \<open>external_config_files\<close> is the result of \<^verbatim>\<open>get_external_config_files()\<close>.
\<close>

record BackupInfo =
  pgdata :: string
  tablespaces :: "Tablespace list option"
  external_config_files :: "ConfigFile list"

text \<open>What one round of the tablespace loop appends to \<^verbatim>\<open>exclude\<close>, and the call it makes.\<close>

definition tablespace_excludes :: "string \<Rightarrow> Tablespace \<Rightarrow> string list" where
  "tablespace_excludes pgdata_dir t =
     (if startswith (location t) pgdata_dir then [drop (length pgdata_dir) (location t)] else [])
     @ [''pg_tblspc/'' @ str_nat (oid t)]"

definition tablespace_call :: "string list \<Rightarrow> string \<Rightarrow> Tablespace \<Rightarrow> controller_call" where
  "tablespace_call EXCLUDE_LIST server_major_version t =
     Upload_directory (name t) (location t) (str_nat (oid t))
       (Some (''/*'' # EXCLUDE_LIST)) (Some [''/PG_'' @ server_major_version @ ''_*''])"

fun tablespace_loop ::
  "string list \<Rightarrow> string \<Rightarrow> string \<Rightarrow> Tablespace list \<Rightarrow> string list \<times> controller_call list
     \<Rightarrow> string list \<times> controller_call list" where
  "tablespace_loop EXCLUDE_LIST ver pgdata_dir [] acc = acc"
| "tablespace_loop EXCLUDE_LIST ver pgdata_dir (t # ts) acc =
     tablespace_loop EXCLUDE_LIST ver pgdata_dir ts
       (fst acc @ tablespace_excludes pgdata_dir t, snd acc @ [tablespace_call EXCLUDE_LIST ver t])"

text \<open>The loop over the external configuration files.\<close>

fun config_file_calls :: "ConfigFile list \<Rightarrow> controller_call list" where
  "config_file_calls [] = []"
| "config_file_calls (f # fs) =
     (if file_type f = ''include'' then config_file_calls fs
      else Add_file (file_type f) (file_path f) ''data'' (basename (file_path f))
             (if file_type f = ''ident_file'' then True else False)
           # config_file_calls fs)"

definition pgdata_call :: "string list \<Rightarrow> string list \<Rightarrow> string \<Rightarrow> string list \<Rightarrow> controller_call" where
  "pgdata_call PGDATA_EXCLUDE_LIST EXCLUDE_LIST pgdata_dir exclude =
     Upload_directory ''pgdata'' pgdata_dir ''data'' (Some (PGDATA_EXCLUDE_LIST @ EXCLUDE_LIST @ exclude)) None"

definition pg_control_call :: "string \<Rightarrow> controller_call" where
  "pg_control_call pgdata_dir =
     Add_file ''pg_control'' (pgdata_dir @ ''/global/pg_control'') ''data'' ''global/pg_control'' False"

text \<open>
  The calls of \<^verbatim>\<open>backup_copy\<close> on the controller, in the order made. The lists
  \<^verbatim>\<open>EXCLUDE_LIST\<close> and \<^verbatim>\<open>PGDATA_EXCLUDE_LIST\<close> of \<^verbatim>\<open>barman.postgres_plumbing\<close> and the
  server's major version are parameters.
\<close>

definition backup_copy_calls :: "string list \<Rightarrow> string list \<Rightarrow> string \<Rightarrow> BackupInfo \<Rightarrow> controller_call list" where
  "backup_copy_calls PGDATA_EXCLUDE_LIST EXCLUDE_LIST ver backup_info =
     (let acc = (case tablespaces backup_info of
                   None \<Rightarrow> ([], [])
                 | Some ts \<Rightarrow> tablespace_loop EXCLUDE_LIST ver (pgdata backup_info) ts ([], []))
      in snd acc
         @ [pgdata_call PGDATA_EXCLUDE_LIST EXCLUDE_LIST (pgdata backup_info) (fst acc),
            pg_control_call (pgdata backup_info)]
         @ config_file_calls (external_config_files backup_info))"

definition backup_copy ::
  "env \<Rightarrow> string list \<Rightarrow> string list \<Rightarrow> string \<Rightarrow> S3UploadController \<Rightarrow> BackupInfo
     \<Rightarrow> S3UploadController \<times> exn option" where
  "backup_copy e PGDATA_EXCLUDE_LIST EXCLUDE_LIST ver controller backup_info =
     run e controller (backup_copy_calls PGDATA_EXCLUDE_LIST EXCLUDE_LIST ver backup_info)"

subsection \<open>A concrete setting for worked examples\<close>

text \<open>
  For runs on concrete inputs the filter parameter is instantiated with a filter for
  rules free of wildcards, each of which stands for the one path it spells, with or
  without the leading \<open>/\<close> that anchors it at the top of the walk. A path named by an
  include rule is accepted, otherwise one named by an exclude rule is rejected, and any
  other path is accepted. The worked examples give it such rules only.
\<close>

definition unanchored :: "string \<Rightarrow> string" where
  "unanchored r = (if r \<noteq> [] \<and> hd r = CHR ''/'' then tl r else r)"

definition literal_allowed :: "string list option \<Rightarrow> string list option \<Rightarrow> string \<Rightarrow> bool \<Rightarrow> bool" where
  "literal_allowed exclude include p is_dir =
     (if (case include of None \<Rightarrow> False | Some rs \<Rightarrow> p \<in> set (map unanchored rs)) then True
      else if (case exclude of None \<Rightarrow> False | Some rs \<Rightarrow> p \<in> set (map unanchored rs)) then False
      else True)"

definition example_tree :: dirtree where
  "example_tree =
     Dir [''PG_VERSION''] [(''base'', Dir [''1''] []), (''tbs'', Dir [] [(''PG_9.4_201409291'', Dir [''16384''] [])])]"

definition example_env :: env where
  "example_env =
     \<lparr>path_allowed = literal_allowed,
      os_walk = (\<lambda>p. if p = ''/pg'' then Some example_tree
                     else if p = ''/pg/tbs'' then dir_at example_tree [''tbs''] else None),
      os_path_exists = (\<lambda>p. p = ''/pg/global/pg_control'' \<or> p = ''/etc/postgresql.conf''),
      os_path_lexists = (\<lambda>p. p = ''/pg/global/pg_control'' \<or> p = ''/etc/postgresql.conf'' \<or>
                             p = ''/etc/pg_hba.conf''),
      tar_blocks = (\<lambda>m. [[0]]),
      tar_trailer = (\<lambda>ms. [[0, 0]]),
      s3_etag = (\<lambda>b. ''etag'')\<rparr>"

definition example_backup_info :: BackupInfo where
  "example_backup_info =
     \<lparr>pgdata = ''/pg'',
      tablespaces = Some [\<lparr>name = ''tbs'', oid = 16387, location = ''/pg/tbs''\<rparr>],
      external_config_files =
        [\<lparr>file_type = ''config_file'', file_path = ''/etc/postgresql.conf''\<rparr>,
         \<lparr>file_type = ''ident_file'', file_path = ''/etc/pg_ident.conf''\<rparr>,
         \<lparr>file_type = ''include'', file_path = ''/etc/extra.conf''\<rparr>]\<rparr>"

definition example_call :: controller_call where
  "example_call = Add_fileobj ''backup_label'' [1, 2] ''data'' ''backup_label''"

text \<open>One call for a destination, \<^verbatim>\<open>close\<close>, the same call again, \<^verbatim>\<open>close\<close> again.\<close>

definition example_reopened :: S3UploadController where
  "example_reopened =
     fst (perform example_env
            (S3UploadController_close example_env
               (fst (perform example_env (S3UploadController_init ''/srv'' None) example_call)))
            example_call)"

definition example_calls :: "controller_call list" where
  "example_calls =
     [Add_fileobj ''backup_label'' [1, 2] ''data'' ''backup_label'',
      Add_file ''ident_file'' ''/etc/pg_ident.conf'' ''conf'' ''pg_ident.conf'' True,
      Add_file ''pg_control'' ''/pg/global/pg_control'' ''data'' ''global/pg_control'' False]"

subsection \<open>\<^verbatim>\<open>CloudInterface\<close>\<close>

text \<open>
  The result of \<^verbatim>\<open>urlparse\<close>, as far as the constructor reads it. \<^verbatim>\<open>urlparse\<close> itself
  belongs to the standard library and is a parameter; it raises \<open>ValueError\<close> on some
  malformed addresses.
\<close>

record ParseResult =
  url_scheme :: string
  url_netloc :: string
  url_path :: string

record CloudInterface =
  destination_url :: string
  profile_name :: "string option"
  encryption :: "string option"
  bucket_name :: string
  path :: string

text \<open>
  The storage SDK as the constructor meets it: what \<^verbatim>\<open>boto3.Session(profile_name=...)\<close>
  and \<^verbatim>\<open>session.resource(...)\<close> raise, if anything. The first raises \<open>ProfileNotFound\<close>
  for a profile that the credentials file does not have.
\<close>

record sdk =
  session_new :: "string option \<Rightarrow> exn option"
  resource_new :: "string \<Rightarrow> exn option"

text \<open>The calls to the storage SDK made while constructing, in order.\<close>

datatype sdk_call = boto3_Session "string option" | session_resource string

text \<open>
  \<^verbatim>\<open>CloudInterface.__init__\<close>: the URL is parsed and checked first, and the session and
  the resource are built only after the check. The result comes with the SDK calls made.
\<close>

definition CloudInterface_init ::
  "(string \<Rightarrow> exn + ParseResult) \<Rightarrow> sdk \<Rightarrow> string \<Rightarrow> string option \<Rightarrow> string option
     \<Rightarrow> (exn + CloudInterface) \<times> sdk_call list" where
  "CloudInterface_init urlparse boto3 url enc profile =
     (case urlparse url of
        Inl x \<Rightarrow> (Inl x, [])
      | Inr parsed_url \<Rightarrow>
          if url_netloc parsed_url = [] \<or> url_scheme parsed_url \<noteq> ''s3''
          then (Inl (ValueError (''Invalid s3 URL address: '' @ url)), [])
          else (case session_new boto3 profile of
                  Some x \<Rightarrow> (Inl x, [boto3_Session profile])
                | None \<Rightarrow>
                    (case resource_new boto3 ''s3'' of
                       Some x \<Rightarrow> (Inl x, [boto3_Session profile, session_resource ''s3''])
                     | None \<Rightarrow>
                         (Inr \<lparr>destination_url = url, profile_name = profile, encryption = enc,
                               bucket_name = url_netloc parsed_url, path = url_path parsed_url\<rparr>,
                          [boto3_Session profile, session_resource ''s3'']))))"

text \<open>
  For worked examples, \<^verbatim>\<open>urlparse\<close> on URLs of the shape \<open>scheme://netloc/path\<close>
  (no query, no fragment, no bracket): the scheme ends at \<open>://\<close>, the network location
  at the next \<open>/\<close>. Without \<open>://\<close> everything is path. The SDK of the examples knows
  the default profile and the profile \<open>backup\<close>.
\<close>

fun after_scheme :: "string \<Rightarrow> string \<Rightarrow> string \<times> string" where
  "after_scheme acc [] = ([], acc)"
| "after_scheme acc (c # cs) =
     (if c = CHR '':'' \<and> take 2 cs = ''//'' then (acc, drop 2 cs) else after_scheme (acc @ [c]) cs)"

definition example_urlparse :: "string \<Rightarrow> exn + ParseResult" where
  "example_urlparse url =
     (let p = after_scheme [] url
      in if fst p = [] then Inr \<lparr>url_scheme = [], url_netloc = [], url_path = snd p\<rparr>
         else Inr \<lparr>url_scheme = fst p,
                   url_netloc = takeWhile (\<lambda>c. c \<noteq> CHR ''/'') (snd p),
                   url_path = dropWhile (\<lambda>c. c \<noteq> CHR ''/'') (snd p)\<rparr>)"

definition example_sdk :: sdk where
  "example_sdk =
     \<lparr>session_new = (\<lambda>profile. case profile of
                         None \<Rightarrow> None
                       | Some p \<Rightarrow> if p = ''backup'' then None else Some (ProfileNotFound p)),
      resource_new = (\<lambda>service. None)\<rparr>"

text \<open>
  \<^verbatim>\<open>test_connectivity\<close>: \<open>bucket_load\<close> is what \<^verbatim>\<open>Bucket(...).load()\<close> raises, if
  anything. Only \<open>EndpointConnectionError\<close> is turned into \<open>False\<close>.
\<close>

definition test_connectivity :: "exn option \<Rightarrow> exn + bool" where
  "test_connectivity bucket_load =
     (case bucket_load of
        None \<Rightarrow> Inr True
      | Some x \<Rightarrow> if x = EndpointConnectionError then Inr False else Inl x)"

text \<open>
  \<^verbatim>\<open>setup_bucket\<close>: \<open>head_bucket\<close> and \<open>bucket_create\<close> are what the two requests
  raise, if anything. A \<open>ClientError\<close> with code 404 leads to the creation of the
  bucket, any other exception goes on to the caller.
\<close>

definition setup_bucket :: "exn option \<Rightarrow> exn option \<Rightarrow> exn option" where
  "setup_bucket head_bucket bucket_create =
     (case head_bucket of
        None \<Rightarrow> None
      | Some x \<Rightarrow> if x = ClientError ''404'' then bucket_create else Some x)"

subsection \<open>The entry point \<^verbatim>\<open>main\<close>\<close>

text \<open>
  The parsed arguments that \<^verbatim>\<open>main\<close> and \<^verbatim>\<open>configure_logging\<close> branch on or pass to
  the constructors.
\<close>

record Namespace =
  cfg_destination_url :: string
  cfg_encryption :: "string option"
  cfg_profile :: "string option"
  cfg_test :: bool
  cfg_verbose :: int
  cfg_quiet :: int

text \<open>
  What the run meets outside the program. \<open>argparse\<close> is \<^verbatim>\<open>parser.parse_args\<close>, which
  either gives the options or leaves with \<open>SystemExit\<close> (status 2 after a usage message,
  0 after \<^verbatim>\<open>--help\<close> and \<^verbatim>\<open>--version\<close>). The other fields are the parser of URLs, the
  storage SDK and, for each call that leaves the program, the exception it raises, if
  any.
\<close>

record world =
  argparse :: "string list \<Rightarrow> exn + Namespace"
  urlparse :: "string \<Rightarrow> exn + ParseResult"
  boto3 :: sdk
  pg_new :: "exn option"
  bucket_load :: "exn option"
  head_bucket :: "exn option"
  bucket_create :: "exn option"
  backup_run :: "exn option"

datatype main_event = logging_basicConfig int | logging_exception exn | postgres_close

text \<open>\<^verbatim>\<open>parse_arguments\<close> builds the parser and returns what it gives.\<close>

definition parse_arguments :: "world \<Rightarrow> string list \<Rightarrow> exn + Namespace" where
  "parse_arguments w args = argparse w args"

text \<open>
  \<^verbatim>\<open>configure_logging\<close>: the level handed to \<^verbatim>\<open>logging.basicConfig\<close>, with
  \<^verbatim>\<open>logging.WARNING\<close> = 30 and \<^verbatim>\<open>logging.DEBUG\<close> = 10.
\<close>

definition configure_logging :: "Namespace \<Rightarrow> main_event" where
  "configure_logging config =
     (let verbosity = cfg_verbose config - cfg_quiet config;
          log_level = max (30 - verbosity * 10) 10
      in logging_basicConfig log_level)"

text \<open>
  The body of the \<^verbatim>\<open>try\<close> statement: the exception it ends with, if any, and whether
  the variable \<^verbatim>\<open>postgres\<close> has been assigned by then. Constructing the uploader only
  stores its arguments.
\<close>

definition main_try :: "world \<Rightarrow> Namespace \<Rightarrow> exn option \<times> bool" where
  "main_try w config =
     (case pg_new w of
        Some x \<Rightarrow> (Some x, False)
      | None \<Rightarrow>
          (case fst (CloudInterface_init (urlparse w) (boto3 w) (cfg_destination_url config)
                       (cfg_encryption config) (cfg_profile config)) of
             Inl x \<Rightarrow> (Some x, True)
           | Inr cloud_interface \<Rightarrow>
               if cfg_test config
               then (case test_connectivity (bucket_load w) of
                       Inl x \<Rightarrow> (Some x, True)
                     | Inr reachable \<Rightarrow>
                         if reachable then (Some (SystemExit 0), True)
                         else (Some (SystemExit 1), True))
               else (case setup_bucket (head_bucket w) (bucket_create w) of
                       Some x \<Rightarrow> (Some x, True)
                     | None \<Rightarrow> (backup_run w, True))))"

text \<open>
  The exit status of the process for what \<^verbatim>\<open>main\<close> ends with: 0 when it returns, the
  argument of \<open>SystemExit\<close>, and 1 for any other exception reaching the top.
\<close>

definition exit_status :: "exn option \<Rightarrow> int" where
  "exit_status r = (case r of None \<Rightarrow> 0 | Some (SystemExit n) \<Rightarrow> n | Some x \<Rightarrow> 1)"

text \<open>
  \<^verbatim>\<open>main\<close>: the arguments are parsed and the logging is set up before the \<^verbatim>\<open>try\<close>
  statement, so that what the parser raises leaves \<^verbatim>\<open>main\<close> as it is. In the statement,
  \<^verbatim>\<open>except Exception\<close> logs and raises \<open>SystemExit(1)\<close> in place of any exception of class
  \<^verbatim>\<open>Exception\<close>; \<^verbatim>\<open>finally\<close> closes the connection when the variable is set. The result
  is the exit status of the process and the events.
\<close>

definition main :: "world \<Rightarrow> string list \<Rightarrow> int \<times> main_event list" where
  "main w args =
     (case parse_arguments w args of
        Inl x \<Rightarrow> (exit_status (Some x), [])
      | Inr config \<Rightarrow>
          (let (raised, postgres) = main_try w config;
               handled = (case raised of
                            None \<Rightarrow> (None, [])
                          | Some x \<Rightarrow> if is_Exception x
                                     then (Some (SystemExit 1), [logging_exception x])
                                     else (Some x, []));
               finally = (if postgres then [postgres_close] else [])
           in (exit_status (fst handled), configure_logging config # snd handled @ finally)))"

text \<open>Exceptions of class \<^verbatim>\<open>Exception\<close> only, as library calls raise them.\<close>

definition raises_Exception_only :: "exn option \<Rightarrow> bool" where
  "raises_Exception_only r = (case r of None \<Rightarrow> True | Some x \<Rightarrow> is_Exception x)"

definition exception_of :: "exn + 'a \<Rightarrow> exn option" where
  "exception_of r = (case r of Inl x \<Rightarrow> Some x | Inr v \<Rightarrow> None)"

subsection \<open>\<^verbatim>\<open>FileWalArchiver.get_remote_status\<close>\<close>

datatype pyval = PyNone | PyStr string

text \<open>
  The connection object, as far as \<^verbatim>\<open>get_remote_status\<close> uses it: \<open>get_setting\<close> gives
  a value or raises; \<open>get_archiver_stats\<close> gives a dictionary, or \<open>None\<close> when the view
  \<^verbatim>\<open>pg_stat_archiver\<close> is not there (the code tests its result against \<open>None\<close> and does
  not guard the call).
\<close>

record postgres =
  get_setting :: "string \<Rightarrow> exn + pyval"
  get_archiver_stats :: "(string \<rightharpoonup> pyval) option"

text \<open>The \<^verbatim>\<open>try\<close> block: the dictionary as far as filled, and the exception met, if any.\<close>

definition query_settings :: "postgres \<Rightarrow> (string \<rightharpoonup> pyval) \<Rightarrow> (string \<rightharpoonup> pyval) \<times> exn option" where
  "query_settings pg result =
     (case get_setting pg ''archive_mode'' of
        Inl x \<Rightarrow> (result, Some x)
      | Inr v1 \<Rightarrow>
          (case get_setting pg ''archive_command'' of
             Inl x \<Rightarrow> (result(''archive_mode'' \<mapsto> v1), Some x)
           | Inr v2 \<Rightarrow> (result(''archive_mode'' \<mapsto> v1, ''archive_command'' \<mapsto> v2), None)))"

definition get_remote_status :: "postgres \<Rightarrow> exn + (string \<rightharpoonup> pyval)" where
  "get_remote_status pg =
     (let result = [''archive_mode'' \<mapsto> PyNone, ''archive_command'' \<mapsto> PyNone];
          (result1, raised) = query_settings pg result
      in case raised of
           Some x \<Rightarrow>
             if x = PostgresConnectionError \<or> x = Psycopg2Error
             then Inr (case get_archiver_stats pg of None \<Rightarrow> result1 | Some stats \<Rightarrow> result1 ++ stats)
             else Inl x
         | None \<Rightarrow> Inr (case get_archiver_stats pg of None \<Rightarrow> result1 | Some stats \<Rightarrow> result1 ++ stats))"

text \<open>A probe that answers or fails in one of the two ways the code provides for.\<close>

definition answers_or_fails :: "exn + pyval \<Rightarrow> bool" where
  "answers_or_fails r =
     (case r of Inr v \<Rightarrow> True | Inl x \<Rightarrow> x = PostgresConnectionError \<or> x = Psycopg2Error)"

text \<open>Settings for worked examples.\<close>

definition example_config :: Namespace where
  "example_config =
     \<lparr>cfg_destination_url = ''s3://bucket/path/to'', cfg_encryption = None, cfg_profile = None,
      cfg_test = True, cfg_verbose = 1, cfg_quiet = 0\<rparr>"

text \<open>
  The parser of the examples takes \<^verbatim>\<open>-t -v URL NAME\<close> and \<^verbatim>\<open>-v URL NAME\<close>, the second
  without the test flag, and rejects everything else as \<open>argparse\<close> does, with status 2.
\<close>

definition example_argparse :: "string list \<Rightarrow> exn + Namespace" where
  "example_argparse args =
     (if args = [''-t'', ''-v'', ''s3://bucket/path/to'', ''main''] then Inr example_config
      else if args = [''-v'', ''s3://bucket/path/to'', ''main'']
      then Inr (example_config\<lparr>cfg_test := False\<rparr>)
      else Inl (SystemExit 2))"

definition example_world :: world where
  "example_world =
     \<lparr>argparse = example_argparse, urlparse = example_urlparse, boto3 = example_sdk,
      pg_new = None, bucket_load = Some EndpointConnectionError,
      head_bucket = Some (ClientError ''404''), bucket_create = None,
      backup_run = Some (OSError ''/pg/base/1'')\<rparr>"

definition example_postgres :: postgres where
  "example_postgres =
     \<lparr>get_setting = (\<lambda>n. if n = ''archive_mode'' then Inr (PyStr ''on'') else Inl PostgresConnectionError),
      get_archiver_stats = None\<rparr>"

subsection \<open>Receiver and server versions\<close>

text \<open>
  Modelled from the spec: the compatibility check of \<^verbatim>\<open>StreamingWalArchiver\<close> is missing
  from \<^verbatim>\<open>barman/wal_archiver.py\<close>, which holds the file archiver only; its tests are in
  \<^verbatim>\<open>tests/test_wal_archiver.py\<close>. The spec's rule, over versions
  \<open>major.minor.patch\<close> with the patch ignored: when the receiver or the server is below
  9.3 they are compatible only if their \<open>major.minor\<close> are equal, otherwise exactly when
  the receiver's \<open>major.minor\<close> is at least the server's; when the server's version
  cannot be had, compatibility is \<open>None\<close>.
\<close>

type_synonym version = "nat \<times> nat \<times> nat"

definition major_minor :: "version \<Rightarrow> nat \<times> nat" where
  "major_minor v = (fst v, fst (snd v))"

definition version_less :: "nat \<times> nat \<Rightarrow> nat \<times> nat \<Rightarrow> bool" where
  "version_less a b = (fst a < fst b \<or> (fst a = fst b \<and> snd a < snd b))"

definition pg_receivexlog_compatible :: "version option \<Rightarrow> version \<Rightarrow> bool option" where
  "pg_receivexlog_compatible server receiver =
     (case server of
        None \<Rightarrow> None
      | Some s \<Rightarrow>
          Some (if version_less (major_minor receiver) (9, 3) \<or> version_less (major_minor s) (9, 3)
                then major_minor receiver = major_minor s
                else \<not> version_less (major_minor receiver) (major_minor s)))"

subsection \<open>The WAL catalogue\<close>

text \<open>
  Modelled from the spec: \<^verbatim>\<open>WalFileInfo\<close> and its \<^verbatim>\<open>to_xlogdb_line\<close> belong to
  \<^verbatim>\<open>barman.infofile\<close>, which is missing from the sources; \<^verbatim>\<open>tests/test_infofile.py\<close>
  gives one rendered line and \<^verbatim>\<open>tests/test_server.py\<close> builds a catalogue by writing one
  line after the other. Following the spec, a line is \<open>name\<close>, \<open>size\<close>, \<open>mtime\<close>,
  \<open>compression\<close> separated by tabs and ended by a newline, with \<open>None\<close> written for a
  null compression. The size is an integer, written in decimal. The time is an integer
  in \<^verbatim>\<open>test_to_xlogdb_line\<close> and the \<^verbatim>\<open>st_mtime\<close> of a file, a float, in the tests of
  \<^verbatim>\<open>from_file\<close>: its type and the text \<^verbatim>\<open>str\<close> gives for it are parameters. The spec
  does not say how the catalogue is read, and no reader is modelled.
\<close>

record 't WalFileInfo =
  wal_name :: string
  wal_size :: int
  wal_time :: 't
  wal_compression :: "string option"

definition TAB :: char where "TAB = CHR 0x09"

definition NL :: char where "NL = CHR 0x0A"

definition str_int :: "int \<Rightarrow> string" where
  "str_int i = (if i < 0 then CHR ''-'' # str_nat (nat (- i)) else str_nat (nat i))"

definition to_xlogdb_line :: "('t \<Rightarrow> string) \<Rightarrow> 't WalFileInfo \<Rightarrow> string" where
  "to_xlogdb_line str_time w =
     wal_name w @ [TAB] @ str_int (wal_size w) @ [TAB] @ str_time (wal_time w) @ [TAB]
     @ (case wal_compression w of None \<Rightarrow> ''None'' | Some c \<Rightarrow> c) @ [NL]"

definition xlogdb_append :: "('t \<Rightarrow> string) \<Rightarrow> string \<Rightarrow> 't WalFileInfo \<Rightarrow> string" where
  "xlogdb_append str_time catalogue w = catalogue @ to_xlogdb_line str_time w"

text \<open>
  The pieces of a text between the occurrences of a separator, and the lines of a text:
  its pieces between newlines, without the empty piece after a final newline.
\<close>

fun split_on :: "char \<Rightarrow> string \<Rightarrow> string list" where
  "split_on s [] = [[]]"
| "split_on s (c # cs) =
     (if c = s then [] # split_on s cs
      else (case split_on s cs of [] \<Rightarrow> [[c]] | x # xs \<Rightarrow> (c # x) # xs))"

definition xlogdb_lines :: "string \<Rightarrow> string list" where
  "xlogdb_lines text = (let ps = split_on NL text in if last ps = [] then butlast ps else ps)"

text \<open>
  The number that a string of decimal digits denotes; it serves to show that different
  numbers are written differently.
\<close>

fun index_of :: "char \<Rightarrow> string \<Rightarrow> nat option" where
  "index_of c [] = None"
| "index_of c (x # xs) = (if x = c then Some 0 else map_option Suc (index_of c xs))"

definition digit_val :: "char \<Rightarrow> nat option" where
  "digit_val c = index_of c ''0123456789''"

fun digits_value :: "nat \<Rightarrow> string \<Rightarrow> nat option" where
  "digits_value acc [] = Some acc"
| "digits_value acc (c # cs) =
     (case digit_val c of None \<Rightarrow> None | Some d \<Rightarrow> digits_value (10 * acc + d) cs)"

text \<open>
  An entry whose name, time as written, and compression are free of tabs and newlines
  (a WAL name, a number and a compression identifier are), and whose compression, when
  there is one, is not spelled like the token for null.
\<close>

definition plain_field :: "string \<Rightarrow> bool" where
  "plain_field s = (TAB \<notin> set s \<and> NL \<notin> set s)"

definition well_formed_wal :: "('t \<Rightarrow> string) \<Rightarrow> 't WalFileInfo \<Rightarrow> bool" where
  "well_formed_wal str_time w =
     (plain_field (wal_name w) \<and> plain_field (str_time (wal_time w)) \<and>
      (case wal_compression w of None \<Rightarrow> True | Some c \<Rightarrow> plain_field c \<and> c \<noteq> ''None''))"

text \<open>
  The entry of \<^verbatim>\<open>test_to_xlogdb_line\<close>, the same entry with a compression that is
  called \<open>None\<close>, and a compressed segment.
\<close>

definition example_wal :: "int WalFileInfo" where
  "example_wal = \<lparr>wal_name = ''test_name'', wal_size = 42, wal_time = 43, wal_compression = None\<rparr>"

definition example_wal_named_None :: "int WalFileInfo" where
  "example_wal_named_None =
     \<lparr>wal_name = ''test_name'', wal_size = 42, wal_time = 43, wal_compression = Some ''None''\<rparr>"

definition example_wal_gz :: "int WalFileInfo" where
  "example_wal_gz =
     \<lparr>wal_name = ''000000010000000000000003'', wal_size = 16777216, wal_time = 1400000000,
      wal_compression = Some ''gzip''\<rparr>"

section \<open>Properties\<close>

subsection \<open>The multipart upload of one tar stream\<close>

lemma part_numbers_append: "part_numbers (xs @ ys) = part_numbers xs @ part_numbers ys"
  by (induction xs rule: part_numbers.induct) auto

lemma part_bodies_append: "part_bodies (xs @ ys) = part_bodies xs @ part_bodies ys"
  by (induction xs rule: part_bodies.induct) auto

lemma completions_append: "completions (xs @ ys) = completions xs @ completions ys"
  by (induction xs rule: completions.induct) auto

lemma flush_effect:
  assumes "S3TarUploader_flush etag u = (u', s)"
  shows "counter u' = counter u + 1" "part_numbers s = [counter u]"
    "parts u' = parts u @ [\<lparr>PartNumber = counter u, ETag = etag (buffer u)\<rparr>]"
    "buffer u' = []" "part_bodies s = [buffer u]" "key u' = key u"
    "chunk_size u' = chunk_size u" "completions s = []" "tar u' = tar u" "mpu u' \<noteq> None"
  using assms by (auto simp: S3TarUploader_flush_def Let_def split: if_splits)

lemma write_effect:
  assumes "S3TarUploader_write etag u b = (u', s)"
  shows "part_numbers s = (if chunk_size u < int (length (buffer u)) then [counter u] else []) \<and>
    counter u' = counter u + int (length (part_numbers s)) \<and>
    parts u' = parts u @ map (\<lambda>(n, b). \<lparr>PartNumber = n, ETag = etag b\<rparr>) (zip (part_numbers s) (part_bodies s)) \<and>
    length (part_bodies s) = length (part_numbers s) \<and>
    concat (part_bodies s) @ buffer u' = buffer u @ b \<and>
    key u' = key u \<and> chunk_size u' = chunk_size u \<and> completions s = [] \<and> tar u' = tar u"
proof (cases "chunk_size u < int (length (buffer u))")
  case True
  obtain u1 s1 where f: "S3TarUploader_flush etag u = (u1, s1)" by force
  from assms True f have eq: "u' = u1\<lparr>buffer := buffer u1 @ b\<rparr>" "s = s1"
    by (auto simp: S3TarUploader_write_def)
  show ?thesis
    using True flush_effect[OF f] by (simp add: eq)
next
  case False
  with assms have eq: "u' = u\<lparr>buffer := buffer u @ b\<rparr>" "s = []"
    by (auto simp: S3TarUploader_write_def)
  show ?thesis
    using False by (simp add: eq)
qed

lemma writes_effect:
  "writes etag u bs = (u', s) \<Longrightarrow>
     part_numbers s = [counter u .. counter u' - 1] \<and>
     counter u' = counter u + int (length (part_numbers s)) \<and>
     parts u' = parts u @ map (\<lambda>(n, b). \<lparr>PartNumber = n, ETag = etag b\<rparr>) (zip (part_numbers s) (part_bodies s)) \<and>
     length (part_bodies s) = length (part_numbers s) \<and>
     concat (part_bodies s) @ buffer u' = buffer u @ concat bs \<and>
     key u' = key u \<and> chunk_size u' = chunk_size u \<and> completions s = [] \<and> tar u' = tar u"
proof (induction bs arbitrary: u u' s)
  case Nil
  then show ?case by auto
next
  case (Cons b bs)
  obtain u1 s1 where w: "S3TarUploader_write etag u b = (u1, s1)" by force
  obtain u2 s2 where r: "writes etag u1 bs = (u2, s2)" by force
  from Cons.prems w r have eq: "u' = u2" "s = s1 @ s2" by auto
  note W = write_effect[OF w]
  note IH = Cons.IH[OF r]
  have ih_pn: "part_numbers s2 = [counter u1 .. counter u2 - 1]" using IH by blast
  have ih_cnt: "counter u2 = counter u1 + int (length (part_numbers s2))" using IH by blast
  have pn: "part_numbers s = [counter u .. counter u' - 1]"
  proof (cases "chunk_size u < int (length (buffer u))")
    case True
    then have a: "part_numbers s1 = [counter u]" "counter u1 = counter u + 1" using W by auto
    have "counter u1 \<le> counter u2" using ih_cnt by linarith
    then have "counter u \<le> counter u2 - 1" using a by simp
    then have "[counter u .. counter u2 - 1] = counter u # [counter u + 1 .. counter u2 - 1]"
      by (rule upto_rec1)
    moreover have "part_numbers s2 = [counter u + 1 .. counter u2 - 1]" using ih_pn a by simp
    ultimately show ?thesis using a by (simp only: eq part_numbers_append append.simps)
  next
    case False
    then have "part_numbers s1 = []" "counter u1 = counter u" using W by auto
    then show ?thesis using ih_pn by (simp add: eq part_numbers_append)
  qed
  have bod: "concat (part_bodies s) @ buffer u' = buffer u @ concat (b # bs)"
  proof -
    have "concat (part_bodies s) @ buffer u' = concat (part_bodies s1) @ (concat (part_bodies s2) @ buffer u2)"
      by (simp add: eq part_bodies_append)
    also have "\<dots> = concat (part_bodies s1) @ buffer u1 @ concat bs" using IH[THEN conjunct2, THEN conjunct2, THEN conjunct2, THEN conjunct2, THEN conjunct1] by simp
    also have "\<dots> = (concat (part_bodies s1) @ buffer u1) @ concat bs" by simp
    also have "\<dots> = (buffer u @ b) @ concat bs" using W by simp
    finally show ?thesis by simp
  qed
  have cnt: "counter u' = counter u + int (length (part_numbers s))"
    using W ih_cnt by (simp add: eq part_numbers_append)
  have prt: "parts u' = parts u @ map (\<lambda>(n, b). \<lparr>PartNumber = n, ETag = etag b\<rparr>) (zip (part_numbers s) (part_bodies s))"
    using W IH[THEN conjunct2, THEN conjunct2] by (simp add: eq part_numbers_append part_bodies_append)
  have rest: "length (part_bodies s) = length (part_numbers s)" "key u' = key u"
    "chunk_size u' = chunk_size u" "completions s = []" "tar u' = tar u"
    using W IH[THEN conjunct2, THEN conjunct2, THEN conjunct2] by (simp_all add: eq part_numbers_append part_bodies_append completions_append)
  show ?case using pn bod cnt prt rest by blast
qed


lemma writes_facts:
  assumes "writes etag u bs = (u', s)"
  shows "part_numbers s = [counter u .. counter u' - 1]"
    "counter u' = counter u + int (length (part_numbers s))"
    "parts u' = parts u @ map (\<lambda>(n, b). \<lparr>PartNumber = n, ETag = etag b\<rparr>) (zip (part_numbers s) (part_bodies s))"
    "length (part_bodies s) = length (part_numbers s)"
    "concat (part_bodies s) @ buffer u' = buffer u @ concat bs"
    "key u' = key u" "chunk_size u' = chunk_size u" "completions s = []" "tar u' = tar u"
  using writes_effect[OF assms] by blast+

lemma close_effect:
  assumes "S3TarUploader_close etag trailer u = (v, s)"
  shows "part_numbers s = [counter u .. counter v - 1] \<and>
     counter v = counter u + int (length (part_numbers s)) \<and>
     parts v = parts u @ map (\<lambda>(n, b). \<lparr>PartNumber = n, ETag = etag b\<rparr>) (zip (part_numbers s) (part_bodies s)) \<and>
     length (part_bodies s) = length (part_numbers s) \<and>
     concat (part_bodies s) = buffer u @ concat trailer \<and>
     last (part_bodies s) = buffer (fst (writes etag u trailer)) \<and>
     part_bodies s \<noteq> [] \<and>
     key v = key u \<and> buffer v = [] \<and>
     completions s = [(key u, parts v)] \<and>
     last s = complete_multipart_upload (key u) (parts v)"
proof -
  obtain u1 s1 where w: "writes etag u trailer = (u1, s1)" by force
  obtain u2 s2 where f: "S3TarUploader_flush etag u1 = (u2, s2)" by force
  from assms w f have eq: "v = u2" "s = s1 @ s2 @ [complete_multipart_upload (key u2) (parts u2)]"
    by (auto simp: S3TarUploader_close_def)
  note W = writes_effect[OF w]
  note F = flush_effect[OF f]
  have w_pn: "part_numbers s1 = [counter u .. counter u1 - 1]" using W by blast
  have w_cnt: "counter u1 = counter u + int (length (part_numbers s1))" using W by blast
  have w_rest: "parts u1 = parts u @ map (\<lambda>(n, b). \<lparr>PartNumber = n, ETag = etag b\<rparr>) (zip (part_numbers s1) (part_bodies s1))"
    "length (part_bodies s1) = length (part_numbers s1)"
    "concat (part_bodies s1) @ buffer u1 = buffer u @ concat trailer"
    "key u1 = key u" "completions s1 = []"
    using W by blast+
  have "counter u \<le> counter u1" using w_cnt by linarith
  then have "[counter u .. counter u1] = [counter u .. counter u1 - 1] @ [counter u1]"
    by (rule upto_rec2)
  then have pn: "part_numbers s = [counter u .. counter v - 1]"
    using w_pn F(1,2) by (simp add: eq part_numbers_append)
  have cnt: "counter v = counter u + int (length (part_numbers s))"
    using w_cnt F(1,2) by (simp add: eq part_numbers_append)
  have prt: "parts v = parts u @ map (\<lambda>(n, b). \<lparr>PartNumber = n, ETag = etag b\<rparr>) (zip (part_numbers s) (part_bodies s))"
    using w_rest(1,2) F(2,3,5) by (simp add: eq part_numbers_append part_bodies_append)
  have bod: "concat (part_bodies s) = buffer u @ concat trailer"
    using w_rest(3) F(5) by (simp add: eq part_bodies_append)
  have rest: "length (part_bodies s) = length (part_numbers s)"
    "last (part_bodies s) = buffer (fst (writes etag u trailer))" "part_bodies s \<noteq> []"
    "key v = key u" "buffer v = []" "completions s = [(key u, parts v)]"
    "last s = complete_multipart_upload (key u) (parts v)"
    using w_rest(2,4,5) F by (simp_all add: eq w part_numbers_append part_bodies_append completions_append)
  show ?thesis using pn cnt prt bod rest by blast
qed

lemma map_parts:
  "length bs = length ns \<Longrightarrow>
   map PartNumber (map (\<lambda>(n, b). \<lparr>PartNumber = n, ETag = etag b\<rparr>) (zip ns bs)) = ns \<and>
   map ETag (map (\<lambda>(n, b). \<lparr>PartNumber = n, ETag = etag b\<rparr>) (zip ns bs)) = map etag bs"
  by (induction ns bs rule: list_induct2') auto

text \<open>
  Claim C1. The default chunk size is \<open>10 << 21 = 20971520\<close>. A \<^verbatim>\<open>write\<close> flushes
  exactly when it finds more than \<open>chunk_size\<close> bytes in the buffer; a flush uploads one
  part, numbered with the current counter and holding the whole buffer, and adds one to
  the counter, which starts at 1. For every sequence of writes followed by
  \<^verbatim>\<open>close\<close>, the parts uploaded are numbered \<open>1, 2, \<dots>, n\<close> in this order, the last one
  being the remainder flushed by \<^verbatim>\<open>close\<close>; the log holds exactly one completion call, it
  is the last call, and it carries the handles of the parts \<open>1, \<dots>, n\<close> in ascending order.
  The bodies of the parts, put together, are the bytes written.
\<close>

theorem S3TarUploader_parts_in_order:
  "DEFAULT_CHUNK_SIZE = 20971520 \<and>
   counter (S3TarUploader_init k cs) = 1 \<and>
   part_numbers (snd (S3TarUploader_write etag u buf)) =
     (if chunk_size u < int (length (buffer u)) then [counter u] else []) \<and>
   counter (fst (S3TarUploader_write etag u buf)) =
     counter u + int (length (part_numbers (snd (S3TarUploader_write etag u buf)))) \<and>
   part_numbers (snd (S3TarUploader_flush etag u)) = [counter u] \<and>
   part_bodies (snd (S3TarUploader_flush etag u)) = [buffer u] \<and>
   counter (fst (S3TarUploader_flush etag u)) = counter u + 1 \<and>
   last (part_bodies (snd (S3TarUploader_close etag trailer u))) = buffer (fst (writes etag u trailer)) \<and>
   (let (v, log) = upload_session etag k cs ws trailer; n = int (length (part_numbers log))
    in part_numbers log = [1 .. n] \<and> 1 \<le> n \<and> counter v = n + 1 \<and>
       completions log = [(k, parts v)] \<and>
       last log = complete_multipart_upload k (parts v) \<and>
       map PartNumber (parts v) = [1 .. n] \<and>
       sorted_wrt (<) (map PartNumber (parts v)) \<and>
       map ETag (parts v) = map etag (part_bodies log) \<and>
       concat (part_bodies log) = concat ws @ concat trailer)"
proof -
  have c0: "DEFAULT_CHUNK_SIZE = 20971520" by (simp add: DEFAULT_CHUNK_SIZE_def)
  have c1: "counter (S3TarUploader_init k cs) = 1" by (simp add: S3TarUploader_init_def)
  obtain uw sw where w: "S3TarUploader_write etag u buf = (uw, sw)" by force
  have c2: "part_numbers (snd (S3TarUploader_write etag u buf)) =
     (if chunk_size u < int (length (buffer u)) then [counter u] else [])"
    "counter (fst (S3TarUploader_write etag u buf)) =
     counter u + int (length (part_numbers (snd (S3TarUploader_write etag u buf))))"
    using write_effect[OF w] by (simp_all add: w)
  obtain uf sf where f: "S3TarUploader_flush etag u = (uf, sf)" by force
  have c3: "part_numbers (snd (S3TarUploader_flush etag u)) = [counter u]"
    "part_bodies (snd (S3TarUploader_flush etag u)) = [buffer u]"
    "counter (fst (S3TarUploader_flush etag u)) = counter u + 1"
    using flush_effect[OF f] by (simp_all add: f)
  obtain uc sc where c: "S3TarUploader_close etag trailer u = (uc, sc)" by force
  have c4: "last (part_bodies (snd (S3TarUploader_close etag trailer u))) = buffer (fst (writes etag u trailer))"
    using close_effect[OF c] by (simp add: c)
  obtain u1 s1 where ws: "writes etag (S3TarUploader_init k cs) ws = (u1, s1)" by force
  obtain v s2 where cl: "S3TarUploader_close etag trailer u1 = (v, s2)" by force
  have sess: "upload_session etag k cs ws trailer = (v, s1 @ s2)"
    by (simp add: upload_session_def ws cl)
  define log where "log = s1 @ s2"
  define n where "n = int (length (part_numbers log))"
  note W = writes_facts[OF ws]
  note C = close_effect[OF cl]
  have i0: "counter (S3TarUploader_init k cs) = 1" "parts (S3TarUploader_init k cs) = []"
    "buffer (S3TarUploader_init k cs) = []" "key (S3TarUploader_init k cs) = k"
    by (simp_all add: S3TarUploader_init_def)
  have w_pn: "part_numbers s1 = [1 .. counter u1 - 1]"
    using W(1) by (simp only: i0)
  have w_cnt: "counter u1 = 1 + int (length (part_numbers s1))"
    using W(2) by (simp only: i0)
  have w_parts: "parts u1 = map (\<lambda>(n, b). \<lparr>PartNumber = n, ETag = etag b\<rparr>) (zip (part_numbers s1) (part_bodies s1))"
    using W(3) by (simp only: i0 append_Nil)
  have w_len: "length (part_bodies s1) = length (part_numbers s1)" by (rule W(4))
  have w_bod: "concat (part_bodies s1) @ buffer u1 = concat ws"
    using W(5) by (simp only: i0 append_Nil)
  have w_key: "key u1 = k" "completions s1 = []" using W(6,8) i0(4) by simp_all
  have c_pn: "part_numbers s2 = [counter u1 .. counter v - 1]" using C by blast
  have c_cnt: "counter v = counter u1 + int (length (part_numbers s2))" using C by blast
  have c_parts: "parts v = parts u1 @ map (\<lambda>(n, b). \<lparr>PartNumber = n, ETag = etag b\<rparr>) (zip (part_numbers s2) (part_bodies s2))"
    using C by blast
  have c_len: "length (part_bodies s2) = length (part_numbers s2)" using C by blast
  have c_ne: "part_bodies s2 \<noteq> []" using C by blast
  have c_bod: "concat (part_bodies s2) = buffer u1 @ concat trailer" using C by blast
  have c_rest: "completions s2 = [(key u1, parts v)]" "last s2 = complete_multipart_upload (key u1) (parts v)"
    using C by blast+
  have s2_ne: "s2 \<noteq> []" using c_rest(1) by auto
  have cv: "counter v = n + 1"
    using w_cnt c_cnt by (simp add: n_def log_def part_numbers_append)
  have le1: "1 \<le> counter u1" using w_cnt by linarith
  have le2: "counter u1 \<le> counter v" using c_cnt by linarith
  have "1 \<le> n" using c_ne c_len by (cases "part_numbers s2") (auto simp: n_def log_def part_numbers_append)
  have split: "[1 .. counter v - 1] = [1 .. counter u1 - 1] @ [counter u1 .. counter v - 1]"
  proof (cases "counter u1 = 1")
    case True
    then show ?thesis by simp
  next
    case False
    then show ?thesis
      using le1 le2 upto_split2[of 1 "counter u1 - 1" "counter v - 1"] by simp
  qed
  have pn: "part_numbers log = [1 .. n]"
    using split w_pn c_pn cv by (simp add: log_def part_numbers_append)
  have parts_v: "parts v = map (\<lambda>(n, b). \<lparr>PartNumber = n, ETag = etag b\<rparr>) (zip (part_numbers log) (part_bodies log))"
    using w_parts c_parts w_len by (simp add: log_def part_numbers_append part_bodies_append)
  have len: "length (part_bodies log) = length (part_numbers log)"
    using w_len c_len by (simp add: log_def part_numbers_append part_bodies_append)
  have mp: "map PartNumber (parts v) = [1 .. n]" "map ETag (parts v) = map etag (part_bodies log)"
    using map_parts[OF len, of etag] pn by (simp_all add: parts_v)
  have srt: "sorted_wrt (<) (map PartNumber (parts v))"
    by (simp add: mp(1))
  have comp: "completions log = [(k, parts v)]" "last log = complete_multipart_upload k (parts v)"
    using w_key c_rest s2_ne by (simp_all add: log_def completions_append)
  have bod: "concat (part_bodies log) = concat ws @ concat trailer"
  proof -
    have "concat (part_bodies log) = concat (part_bodies s1) @ buffer u1 @ concat trailer"
      using c_bod by (simp add: log_def part_bodies_append)
    also have "\<dots> = (concat (part_bodies s1) @ buffer u1) @ concat trailer" by simp
    also have "\<dots> = concat ws @ concat trailer" by (simp only: w_bod)
    finally show ?thesis .
  qed
  have c5: "(let (v, log) = upload_session etag k cs ws trailer; n = int (length (part_numbers log))
    in part_numbers log = [1 .. n] \<and> 1 \<le> n \<and> counter v = n + 1 \<and>
       completions log = [(k, parts v)] \<and>
       last log = complete_multipart_upload k (parts v) \<and>
       map PartNumber (parts v) = [1 .. n] \<and>
       sorted_wrt (<) (map PartNumber (parts v)) \<and>
       map ETag (parts v) = map etag (part_bodies log) \<and>
       concat (part_bodies log) = concat ws @ concat trailer)"
    unfolding sess Let_def prod.case log_def[symmetric] n_def[symmetric]
    using pn \<open>1 \<le> n\<close> cv comp mp srt bod by blast
  show ?thesis using c0 c1 c2 c3 c4 c5 by blast
qed

subsection \<open>The directory walk of \<^verbatim>\<open>upload_directory\<close>\<close>

lemma walk_subdirs_contains:
  "map_of ds n = Some t \<Longrightarrow> set (walk (pre @ [n]) t) \<subseteq> set (walk_subdirs pre ds)"
  by (induction ds) (auto split: if_splits)

lemma walk_dir_at:
  "dir_at t rel = Some (Dir fs ds) \<Longrightarrow> (pre @ rel, fs) \<in> set (walk pre t)"
proof (induction rel arbitrary: t pre)
  case Nil
  then show ?case by simp
next
  case (Cons n ns)
  obtain fs0 ds0 where t: "t = Dir fs0 ds0" by (cases t)
  from Cons.prems t obtain t' where m: "map_of ds0 n = Some t'" and d: "dir_at t' ns = Some (Dir fs ds)"
    by (auto split: option.splits)
  have "((pre @ [n]) @ ns, fs) \<in> set (walk (pre @ [n]) t')" using Cons.IH[OF d] .
  then have "(pre @ n # ns, fs) \<in> set (walk_subdirs pre ds0)"
    using walk_subdirs_contains[OF m] by auto
  then show ?case by (simp add: t)
qed

lemma directory_members_sound:
  assumes "m \<in> set (directory_members e src ex inc d)"
  shows "path_allowed e ex inc (relpath (fst d)) True \<and>
    (recursive m = False \<longrightarrow> arcname m = relpath (fst d)) \<and>
    (recursive m = True \<longrightarrow> path_allowed e ex inc (arcname m) False \<and>
       (\<exists>item \<in> set (snd d). arcname m = path_join (relpath (fst d)) item))"
  using assms by (auto simp: directory_members_def Let_def split: if_splits)

text \<open>
  What the walk adds. Every directory entry of the archive passed the filter as a
  directory, and every file entry passed it as a file and sits in a directory that
  passed. In the other direction the filter is asked about each directory of the tree
  on its own: the answer for the directories above it plays no part.
\<close>

lemma upload_directory_members_filtered:
  "(\<forall>m \<in> set (upload_directory_members e src ex inc t).
      (recursive m = False \<longrightarrow> path_allowed e ex inc (arcname m) True) \<and>
      (recursive m = True \<longrightarrow> path_allowed e ex inc (arcname m) False \<and>
         (\<exists>d \<in> set (walk [] t). \<exists>item \<in> set (snd d).
            arcname m = path_join (relpath (fst d)) item \<and>
            path_allowed e ex inc (relpath (fst d)) True))) \<and>
   (\<forall>rel fs ds. dir_at t rel = Some (Dir fs ds) \<longrightarrow>
      (if path_allowed e ex inc (relpath rel) True
       then \<lparr>source = FromPath (walk_root src rel), arcname = relpath rel, recursive = False\<rparr>
              \<in> set (upload_directory_members e src ex inc t) \<and>
            (\<forall>f \<in> set fs. path_allowed e ex inc (path_join (relpath rel) f) False \<longrightarrow>
               \<lparr>source = FromPath (path_join (walk_root src rel) f),
                arcname = path_join (relpath rel) f, recursive = True\<rparr>
               \<in> set (upload_directory_members e src ex inc t))
       else directory_members e src ex inc (rel, fs) = []))"
proof (intro conjI ballI allI impI)
  fix m assume m: "m \<in> set (upload_directory_members e src ex inc t)"
  then obtain d where d: "d \<in> set (walk [] t)" "m \<in> set (directory_members e src ex inc d)"
    by (auto simp: upload_directory_members_def)
  note S = directory_members_sound[OF d(2)]
  { assume "recursive m = False"
    then show "path_allowed e ex inc (arcname m) True" using S by simp }
  { assume r: "recursive m = True"
    then show "path_allowed e ex inc (arcname m) False" using S by simp
    from r S obtain item where "item \<in> set (snd d)" "arcname m = path_join (relpath (fst d)) item"
      by auto
    then show "\<exists>d \<in> set (walk [] t). \<exists>item \<in> set (snd d).
            arcname m = path_join (relpath (fst d)) item \<and>
            path_allowed e ex inc (relpath (fst d)) True"
      using d(1) S by blast }
next
  fix rel fs ds assume a: "dir_at t rel = Some (Dir fs ds)"
  have w: "(rel, fs) \<in> set (walk [] t)" using walk_dir_at[OF a, of "[]"] by simp
  show "if path_allowed e ex inc (relpath rel) True
       then \<lparr>source = FromPath (walk_root src rel), arcname = relpath rel, recursive = False\<rparr>
              \<in> set (upload_directory_members e src ex inc t) \<and>
            (\<forall>f \<in> set fs. path_allowed e ex inc (path_join (relpath rel) f) False \<longrightarrow>
               \<lparr>source = FromPath (path_join (walk_root src rel) f),
                arcname = path_join (relpath rel) f, recursive = True\<rparr>
               \<in> set (upload_directory_members e src ex inc t))
       else directory_members e src ex inc (rel, fs) = []"
  proof (cases "path_allowed e ex inc (relpath rel) True")
    case True
    have "\<lparr>source = FromPath (walk_root src rel), arcname = relpath rel, recursive = False\<rparr>
            \<in> set (directory_members e src ex inc (rel, fs))"
      using True by (simp add: directory_members_def Let_def)
    moreover have "\<forall>f \<in> set fs. path_allowed e ex inc (path_join (relpath rel) f) False \<longrightarrow>
               \<lparr>source = FromPath (path_join (walk_root src rel) f),
                arcname = path_join (relpath rel) f, recursive = True\<rparr>
               \<in> set (directory_members e src ex inc (rel, fs))"
      using True by (auto simp: directory_members_def Let_def)
    ultimately show ?thesis using True w
      unfolding upload_directory_members_def by (simp only: if_True set_concat set_map) blast
  next
    case False
    then show ?thesis by (simp add: directory_members_def Let_def)
  qed
qed

subsection \<open>One tar stream for each destination\<close>

lemma map_of_update_same: "map_of (AList.update k v al) k = Some v"
  by (simp add: update_conv')

lemma map_of_update_other: "k' \<noteq> k \<Longrightarrow> map_of (AList.update k v al) k' = map_of al k'"
  by (simp add: update_conv')

lemma get_tar_effect:
  "(\<exists>u. map_of (s3_list (get_tar c n)) n = Some (Some u) \<and>
        u = (case map_of (s3_list c) n of Some (Some u0) \<Rightarrow> u0
             | _ \<Rightarrow> S3TarUploader_init (path_join (key_prefix c) (build_dest_name c n)) DEFAULT_CHUNK_SIZE)) \<and>
   (\<forall>d. d \<noteq> n \<longrightarrow> map_of (s3_list (get_tar c n)) d = map_of (s3_list c) d) \<and>
   cloud (get_tar c n) = cloud c \<and>
   key_prefix (get_tar c n) = key_prefix c \<and> compression (get_tar c n) = compression c \<and>
   set (map fst (s3_list (get_tar c n))) = insert n (set (map fst (s3_list c))) \<and>
   (distinct (map fst (s3_list c)) \<longrightarrow> distinct (map fst (s3_list (get_tar c n))))"
  by (auto simp: get_tar_def update_conv' dom_update distinct_update map_of_eq_None_iff
      split: option.splits dest: map_of_SomeD intro: rev_image_eqI)

lemma get_tar_members: "stream_members (get_tar c n) d = stream_members c d"
  by (auto simp: get_tar_def stream_members_def update_conv' S3TarUploader_init_def split: option.splits)


lemma set_update_snd: "snd ` set (AList.update k v al) \<subseteq> insert v (snd ` set al)"
  by (induction al) auto

lemma get_tar_no_closed: "no_closed_entry c \<Longrightarrow> no_closed_entry (get_tar c n)"
  using set_update_snd[of n _ "s3_list c"]
  by (auto simp: get_tar_def no_closed_entry_def split: option.splits)

lemma tar_add_effect:
  assumes "map_of (s3_list c) n = Some (Some u)"
  shows "\<exists>u'. map_of (s3_list (tar_add e n c m)) n = Some (Some u') \<and> tar u' = tar u @ [m] \<and> key u' = key u"
    "d \<noteq> n \<Longrightarrow> map_of (s3_list (tar_add e n c m)) d = map_of (s3_list c) d"
    "completions (cloud (tar_add e n c m)) = completions (cloud c)"
    "key_prefix (tar_add e n c m) = key_prefix c" "compression (tar_add e n c m) = compression c"
    "set (map fst (s3_list (tar_add e n c m))) = set (map fst (s3_list c))"
    "distinct (map fst (s3_list c)) \<Longrightarrow> distinct (map fst (s3_list (tar_add e n c m)))"
    "no_closed_entry c \<Longrightarrow> no_closed_entry (tar_add e n c m)"
proof -
  obtain u1 sent where w: "writes (s3_etag e) u (tar_blocks e m) = (u1, sent)" by force
  note W = writes_facts[OF w]
  have eq: "tar_add e n c m =
      c\<lparr>s3_list := AList.update n (Some (u1\<lparr>tar := tar u1 @ [m]\<rparr>)) (s3_list c), cloud := cloud c @ sent\<rparr>"
    using assms w by (simp add: tar_add_def)
  show "\<exists>u'. map_of (s3_list (tar_add e n c m)) n = Some (Some u') \<and> tar u' = tar u @ [m] \<and> key u' = key u"
    using W by (simp add: eq update_conv')
  show "d \<noteq> n \<Longrightarrow> map_of (s3_list (tar_add e n c m)) d = map_of (s3_list c) d"
    by (simp add: eq update_conv')
  show "completions (cloud (tar_add e n c m)) = completions (cloud c)"
    using W by (simp add: eq completions_append)
  show "key_prefix (tar_add e n c m) = key_prefix c" "compression (tar_add e n c m) = compression c"
    by (simp_all add: eq)
  have "n \<in> fst ` set (s3_list c)" using assms by (auto dest: map_of_SomeD intro: rev_image_eqI)
  then show "set (map fst (s3_list (tar_add e n c m))) = set (map fst (s3_list c))"
    by (auto simp: eq dom_update[symmetric] update_keys)
  show "distinct (map fst (s3_list c)) \<Longrightarrow> distinct (map fst (s3_list (tar_add e n c m)))"
    by (simp add: eq distinct_update)
  show "no_closed_entry c \<Longrightarrow> no_closed_entry (tar_add e n c m)"
    using set_update_snd[of n "Some (u1\<lparr>tar := tar u1 @ [m]\<rparr>)" "s3_list c"]
    by (auto simp: eq no_closed_entry_def)
qed

lemma tar_adds_effect:
  "map_of (s3_list c) n = Some (Some u) \<Longrightarrow>
   (\<exists>u'. map_of (s3_list (foldl (tar_add e n) c ms)) n = Some (Some u') \<and> tar u' = tar u @ ms \<and> key u' = key u) \<and>
   (\<forall>d. d \<noteq> n \<longrightarrow> map_of (s3_list (foldl (tar_add e n) c ms)) d = map_of (s3_list c) d) \<and>
   completions (cloud (foldl (tar_add e n) c ms)) = completions (cloud c) \<and>
   key_prefix (foldl (tar_add e n) c ms) = key_prefix c \<and>
   compression (foldl (tar_add e n) c ms) = compression c \<and>
   set (map fst (s3_list (foldl (tar_add e n) c ms))) = set (map fst (s3_list c)) \<and>
   (distinct (map fst (s3_list c)) \<longrightarrow> distinct (map fst (s3_list (foldl (tar_add e n) c ms)))) \<and>
   (no_closed_entry c \<longrightarrow> no_closed_entry (foldl (tar_add e n) c ms))"
proof (induction ms arbitrary: c u)
  case Nil
  then show ?case by simp
next
  case (Cons m ms)
  note T = tar_add_effect[OF Cons.prems, where e=e and m=m]
  from T(1) obtain u1 where u1: "map_of (s3_list (tar_add e n c m)) n = Some (Some u1)"
    "tar u1 = tar u @ [m]" "key u1 = key u" by blast
  note IH = Cons.IH[OF u1(1)]
  show ?case using IH T(2-) u1(2,3) by (simp del: set_map)
qed


lemma get_tar_then_adds:
  fixes c n e ms
  defines "c1 \<equiv> get_tar c n"
  defines "c2 \<equiv> foldl (tar_add e n) c1 ms"
  shows "stream_members c2 n = stream_members c n @ ms"
    "d \<noteq> n \<Longrightarrow> map_of (s3_list c2) d = map_of (s3_list c) d"
    "completions (cloud c2) = completions (cloud c)"
    "key_prefix c2 = key_prefix c" "compression c2 = compression c"
    "set (map fst (s3_list c2)) = insert n (set (map fst (s3_list c)))"
    "distinct (map fst (s3_list c)) \<Longrightarrow> distinct (map fst (s3_list c2))"
    "no_closed_entry c \<Longrightarrow> no_closed_entry c2"
proof -
  note G = get_tar_effect[of c n]
  from G obtain u where u: "map_of (s3_list c1) n = Some (Some u)" unfolding c1_def by blast
  have tu: "tar u = stream_members c n"
    using get_tar_members[of c n n] u by (simp add: stream_members_def c1_def)
  note A = tar_adds_effect[OF u, of e ms, folded c2_def]
  from A obtain u' where u': "map_of (s3_list c2) n = Some (Some u')" "tar u' = tar u @ ms" by blast
  show "stream_members c2 n = stream_members c n @ ms"
    using u' tu by (simp add: stream_members_def)
  show "d \<noteq> n \<Longrightarrow> map_of (s3_list c2) d = map_of (s3_list c) d"
    using A G unfolding c1_def by simp
  show "completions (cloud c2) = completions (cloud c)" using A G unfolding c1_def by simp
  show "key_prefix c2 = key_prefix c" "compression c2 = compression c"
    using A G unfolding c1_def by simp_all
  show "set (map fst (s3_list c2)) = insert n (set (map fst (s3_list c)))"
    using A G unfolding c1_def by (simp del: set_map)
  show "distinct (map fst (s3_list c)) \<Longrightarrow> distinct (map fst (s3_list c2))"
    using A G unfolding c1_def by simp
  show "no_closed_entry c \<Longrightarrow> no_closed_entry c2"
    using A get_tar_no_closed[of c n] unfolding c1_def by simp
qed

lemma perform_effect_conj:
  assumes "perform e c k = (c', x)"
  shows "(stream_members c' (call_dst k) = stream_members c (call_dst k) @ call_members e k) \<and>
    (\<forall>d. d \<noteq> call_dst k \<longrightarrow> map_of (s3_list c') d = map_of (s3_list c) d) \<and>
    (completions (cloud c') = completions (cloud c)) \<and>
    (key_prefix c' = key_prefix c) \<and> (compression c' = compression c) \<and>
    (set (map fst (s3_list c')) =
       (if asks_for_stream e k then insert (call_dst k) (set (map fst (s3_list c)))
        else set (map fst (s3_list c)))) \<and>
    (distinct (map fst (s3_list c)) \<longrightarrow> distinct (map fst (s3_list c'))) \<and>
    (no_closed_entry c \<longrightarrow> no_closed_entry c')"
proof (cases k)
  case (Upload_directory label src dst ex inc)
  define ms where "ms = call_members e k"
  have c': "c' = foldl (tar_add e dst) (get_tar c dst) ms"
    using assms Upload_directory by (auto simp: upload_directory_def ms_def split: option.splits)
  have kk: "call_dst k = dst" "call_members e k = ms" "asks_for_stream e k = True"
    by (simp_all add: ms_def Upload_directory)
  show ?thesis unfolding kk c'
    using get_tar_then_adds[where c=c and n=dst and e=e and ms=ms] by (simp del: set_map)
next
  case (Add_file label src dst arc optional)
  define ms where "ms = call_members e k"
  have c': "c' = (if optional \<and> \<not> os_path_exists e src then c else foldl (tar_add e dst) (get_tar c dst) ms)"
    using assms Add_file by (auto simp: add_file_def ms_def Let_def split: if_splits)
  show ?thesis
  proof (cases "optional \<and> \<not> os_path_exists e src")
    case True
    then show ?thesis by (simp add: c' Add_file)
  next
    case False
    have kk: "call_dst k = dst" "call_members e k = ms" "asks_for_stream e k = True"
      using False by (simp_all add: ms_def Add_file)
    have c'': "c' = foldl (tar_add e dst) (get_tar c dst) ms" using False c' by auto
    show ?thesis unfolding kk c''
      using get_tar_then_adds[where c=c and n=dst and e=e and ms=ms] by (simp del: set_map)
  qed
next
  case (Add_fileobj label fileobj dst arc)
  define ms where "ms = call_members e k"
  have c': "c' = foldl (tar_add e dst) (get_tar c dst) ms"
    using assms Add_fileobj by (auto simp: add_fileobj_def ms_def Let_def)
  have kk: "call_dst k = dst" "call_members e k = ms" "asks_for_stream e k = True"
    by (simp_all add: ms_def Add_fileobj)
  show ?thesis unfolding kk c'
    using get_tar_then_adds[where c=c and n=dst and e=e and ms=ms] by (simp del: set_map)
qed

lemma perform_effect:
  assumes "perform e c k = (c', x)"
  shows "stream_members c' (call_dst k) = stream_members c (call_dst k) @ call_members e k"
    "d \<noteq> call_dst k \<Longrightarrow> map_of (s3_list c') d = map_of (s3_list c) d"
    "completions (cloud c') = completions (cloud c)"
    "key_prefix c' = key_prefix c" "compression c' = compression c"
    "set (map fst (s3_list c')) =
       (if asks_for_stream e k then insert (call_dst k) (set (map fst (s3_list c)))
        else set (map fst (s3_list c)))"
    "distinct (map fst (s3_list c)) \<Longrightarrow> distinct (map fst (s3_list c'))"
    "no_closed_entry c \<Longrightarrow> no_closed_entry c'"
proof -
  note C = perform_effect_conj[OF assms]
  note C2 = C[THEN conjunct2]
  note C3 = C2[THEN conjunct2]
  note C4 = C3[THEN conjunct2]
  note C5 = C4[THEN conjunct2]
  note C6 = C5[THEN conjunct2]
  note C7 = C6[THEN conjunct2]
  show "stream_members c' (call_dst k) = stream_members c (call_dst k) @ call_members e k"
    by (rule C[THEN conjunct1])
  show "d \<noteq> call_dst k \<Longrightarrow> map_of (s3_list c') d = map_of (s3_list c) d"
    by (rule C2[THEN conjunct1, rule_format])
  show "completions (cloud c') = completions (cloud c)" by (rule C3[THEN conjunct1])
  show "key_prefix c' = key_prefix c" by (rule C4[THEN conjunct1])
  show "compression c' = compression c" by (rule C5[THEN conjunct1])
  show "set (map fst (s3_list c')) =
       (if asks_for_stream e k then insert (call_dst k) (set (map fst (s3_list c)))
        else set (map fst (s3_list c)))" by (rule C6[THEN conjunct1])
  show "distinct (map fst (s3_list c)) \<Longrightarrow> distinct (map fst (s3_list c'))"
    by (rule C7[THEN conjunct1, rule_format])
  show "no_closed_entry c \<Longrightarrow> no_closed_entry c'"
    by (rule C7[THEN conjunct2, rule_format])
qed

lemma stream_members_other:
  "map_of (s3_list c') d = map_of (s3_list c) d \<Longrightarrow> stream_members c' d = stream_members c d"
  by (simp add: stream_members_def)

lemma run_effect:
  "run e c ks = (c', None) \<Longrightarrow>
   (\<forall>d. stream_members c' d = stream_members c d @ concat (map (call_members e) (filter (\<lambda>k. call_dst k = d) ks))) \<and>
   completions (cloud c') = completions (cloud c) \<and>
   key_prefix c' = key_prefix c \<and> compression c' = compression c \<and>
   set (map fst (s3_list c')) = set (map fst (s3_list c)) \<union> call_dst ` {k \<in> set ks. asks_for_stream e k} \<and>
   (distinct (map fst (s3_list c)) \<longrightarrow> distinct (map fst (s3_list c'))) \<and>
   (no_closed_entry c \<longrightarrow> no_closed_entry c')"
proof (induction ks arbitrary: c)
  case Nil
  then show ?case by simp
next
  case (Cons k ks)
  obtain c1 x where p: "perform e c k = (c1, x)" by force
  from Cons.prems p have x: "x = None" and r: "run e c1 ks = (c', None)"
    by (auto split: option.splits)
  note P = perform_effect[OF p]
  note IH = Cons.IH[OF r]
  note I2 = IH[THEN conjunct2]
  note I3 = I2[THEN conjunct2]
  note I4 = I3[THEN conjunct2]
  note I5 = I4[THEN conjunct2]
  note I6 = I5[THEN conjunct2]
  have ih_mem: "\<And>d. stream_members c' d = stream_members c1 d @ concat (map (call_members e) (filter (\<lambda>k. call_dst k = d) ks))"
    by (rule IH[THEN conjunct1, rule_format])
  have ih_keys: "set (map fst (s3_list c')) = set (map fst (s3_list c1)) \<union> call_dst ` {k \<in> set ks. asks_for_stream e k}"
    by (rule I5[THEN conjunct1])
  have ih_rest: "completions (cloud c') = completions (cloud c1)" "key_prefix c' = key_prefix c1"
    "compression c' = compression c1"
    "distinct (map fst (s3_list c1)) \<longrightarrow> distinct (map fst (s3_list c'))"
    "no_closed_entry c1 \<longrightarrow> no_closed_entry c'"
    by (rule I2[THEN conjunct1], rule I3[THEN conjunct1], rule I4[THEN conjunct1],
        rule I6[THEN conjunct1], rule I6[THEN conjunct2])
  have mem: "\<forall>d. stream_members c' d = stream_members c d @ concat (map (call_members e) (filter (\<lambda>k. call_dst k = d) (k # ks)))"
  proof
    fix d
    show "stream_members c' d = stream_members c d @ concat (map (call_members e) (filter (\<lambda>k. call_dst k = d) (k # ks)))"
    proof (cases "call_dst k = d")
      case True
      have f: "filter (\<lambda>k. call_dst k = d) (k # ks) = k # filter (\<lambda>k. call_dst k = d) ks"
        using True by simp
      have p1: "stream_members c1 d = stream_members c d @ call_members e k"
        using P(1) unfolding True .
      show ?thesis unfolding f ih_mem[of d] p1 by simp
    next
      case False
      have f: "filter (\<lambda>k. call_dst k = d) (k # ks) = filter (\<lambda>k. call_dst k = d) ks"
        using False by simp
      have "map_of (s3_list c1) d = map_of (s3_list c) d" using False by (intro P(2)) simp
      then have p1: "stream_members c1 d = stream_members c d" by (rule stream_members_other)
      show ?thesis unfolding f ih_mem[of d] p1 by simp
    qed
  qed
  have split: "{k' \<in> set (k # ks). asks_for_stream e k'} =
      (if asks_for_stream e k then {k} else {}) \<union> {k' \<in> set ks. asks_for_stream e k'}"
    by auto
  have keys: "set (map fst (s3_list c')) = set (map fst (s3_list c)) \<union> call_dst ` {k' \<in> set (k # ks). asks_for_stream e k'}"
    unfolding ih_keys P(6) split by (cases "asks_for_stream e k") (simp_all only: if_True if_False image_Un image_insert image_empty Un_insert_left Un_insert_right Un_empty_left Un_assoc)
  have rest: "completions (cloud c') = completions (cloud c)" "key_prefix c' = key_prefix c"
    "compression c' = compression c"
    "distinct (map fst (s3_list c)) \<longrightarrow> distinct (map fst (s3_list c'))"
    "no_closed_entry c \<longrightarrow> no_closed_entry c'"
    using ih_rest P(3,4,5,7,8) by simp_all
  show ?case by (intro conjI mem keys rest)
qed

lemma map_of_append_notin:
  "n \<notin> fst ` set xs \<Longrightarrow> map_of (xs @ ys) n = map_of ys n"
  by (induction xs) auto

lemma update_append_notin:
  "n \<notin> fst ` set xs \<Longrightarrow> AList.update n v (xs @ (n, w) # ys) = xs @ (n, v) # ys"
  by (induction xs) auto

lemma close_names_gen:
  "distinct (map fst (xs @ ys)) \<Longrightarrow> s3_list c = map closed_entry xs @ ys \<Longrightarrow>
   foldl (close_name e) c (map fst ys) =
     c\<lparr>s3_list := map closed_entry (xs @ ys), cloud := cloud c @ closing_calls e (streams_of ys)\<rparr>"
proof (induction ys arbitrary: xs c)
  case Nil
  then show ?case by (simp add: closing_calls_def streams_of_def)
next
  case (Cons p ys)
  obtain n s where p: "p = (n, s)" by force
  have notin: "n \<notin> fst ` set (map closed_entry xs)"
    using Cons.prems(1) by (force simp: p closed_entry_def image_iff)
  have look: "map_of (s3_list c) n = Some s"
    unfolding Cons.prems(2) p map_of_append_notin[OF notin] by simp
  have upd: "AList.update n None (s3_list c) = map closed_entry (xs @ [p]) @ ys"
    unfolding Cons.prems(2) p update_append_notin[OF notin] by (simp add: closed_entry_def)
  define c1 where "c1 = close_name e c n"
  have c1: "c1 = c\<lparr>cloud := cloud c @ closing_calls e (streams_of [p]),
                  s3_list := map closed_entry (xs @ [p]) @ ys\<rparr>"
    using look upd
    by (cases s) (simp_all add: c1_def close_name_def closing_calls_def streams_of_def p)
  have d: "distinct (map fst ((xs @ [p]) @ ys))" using Cons.prems(1) by simp
  have l: "s3_list c1 = map closed_entry (xs @ [p]) @ ys" by (simp add: c1)
  have "foldl (close_name e) c (map fst (p # ys)) = foldl (close_name e) c1 (map fst ys)"
    by (simp add: c1_def p)
  also have "\<dots> = c1\<lparr>s3_list := map closed_entry ((xs @ [p]) @ ys),
                      cloud := cloud c1 @ closing_calls e (streams_of ys)\<rparr>"
    by (rule Cons.IH[OF d l])
  also have "\<dots> = c\<lparr>s3_list := map closed_entry (xs @ p # ys),
                     cloud := cloud c @ closing_calls e (streams_of (p # ys))\<rparr>"
    by (simp add: c1 closing_calls_def streams_of_def)
  finally show ?case .
qed

lemma close_eq:
  assumes "distinct (map fst (s3_list c))"
  shows "S3UploadController_close e c =
     c\<lparr>s3_list := map closed_entry (s3_list c), cloud := cloud c @ closing_calls e (open_streams c)\<rparr>"
  using close_names_gen[of "[]" "s3_list c" c e] assms
  by (simp add: S3UploadController_close_def open_streams_def)

lemma open_streams_closed: "streams_of (map closed_entry al) = []"
  by (induction al) (auto simp: streams_of_def closed_entry_def)

lemma completions_closing:
  "completions (closing_calls e streams) =
     map (\<lambda>p. (key (snd p), parts (fst (S3TarUploader_close (s3_etag e) (tar_trailer e (tar (snd p))) (snd p))))) streams"
proof (induction streams)
  case Nil
  then show ?case by (simp add: closing_calls_def)
next
  case (Cons p ps)
  obtain v s where c: "S3TarUploader_close (s3_etag e) (tar_trailer e (tar (snd p))) (snd p) = (v, s)" by force
  have "completions s = [(key (snd p), parts v)]" using close_effect[OF c] by blast
  then show ?case using Cons by (simp add: closing_calls_def completions_append c)
qed

lemma run_distinct:
  "run e c ks = (c', x) \<Longrightarrow> distinct (map fst (s3_list c)) \<Longrightarrow> distinct (map fst (s3_list c'))"
proof (induction ks arbitrary: c)
  case Nil
  then show ?case by simp
next
  case (Cons k ks)
  obtain c1 y where p: "perform e c k = (c1, y)" by force
  have d1: "distinct (map fst (s3_list c1))" using perform_effect(7)[OF p] Cons.prems(2) .
  show ?case
  proof (cases y)
    case None
    then have "run e c1 ks = (c', x)" using Cons.prems(1) p by simp
    then show ?thesis using Cons.IH d1 by blast
  next
    case (Some z)
    then have "c' = c1" using Cons.prems(1) p by simp
    then show ?thesis using d1 by simp
  qed
qed

lemma streams_of_all_open:
  "None \<notin> snd ` set al \<Longrightarrow> map fst (streams_of al) = map fst al"
  by (induction al) (auto simp: streams_of_def split: option.splits)

lemma init_facts:
  "s3_list (S3UploadController_init kp cmpr) = []" "cloud (S3UploadController_init kp cmpr) = []"
  "no_closed_entry (S3UploadController_init kp cmpr)"
  "stream_members (S3UploadController_init kp cmpr) d = []"
  by (simp_all add: S3UploadController_init_def no_closed_entry_def stream_members_def)

lemma close_twice:
  assumes "distinct (map fst (s3_list c))"
  shows "S3UploadController_close e (S3UploadController_close e c) = S3UploadController_close e c"
proof -
  define c1 where "c1 = S3UploadController_close e c"
  have c1: "c1 = c\<lparr>s3_list := map closed_entry (s3_list c), cloud := cloud c @ closing_calls e (open_streams c)\<rparr>"
    unfolding c1_def by (rule close_eq[OF assms])
  have l: "s3_list c1 = map closed_entry (s3_list c)" by (simp add: c1)
  have d: "distinct (map fst (s3_list c1))" using assms by (simp add: l closed_entry_def comp_def)
  have o: "open_streams c1 = []" by (simp add: open_streams_def l open_streams_closed)
  have i: "map closed_entry (map closed_entry (s3_list c)) = map closed_entry (s3_list c)"
    by (simp add: closed_entry_def)
  have "S3UploadController_close e c1 = c1"
    unfolding close_eq[OF d] o l i by (simp add: closing_calls_def c1)
  then show ?thesis by (simp add: c1_def)
qed

lemma streams_of_subset: "set (map fst (streams_of al)) \<subseteq> set (map fst al)"
  by (force simp: streams_of_def split: option.splits)

lemma streams_of_Cons:
  "streams_of ((m, None) # al) = streams_of al"
  "streams_of ((m, Some u) # al) = (m, u) # streams_of al"
  by (simp_all add: streams_of_def)

lemma streams_of_names:
  "distinct (map fst al) \<Longrightarrow>
   (n \<in> set (map fst (streams_of al))) = (\<exists>u. map_of al n = Some (Some u))"
proof (induction al)
  case Nil
  then show ?case by (simp add: streams_of_def)
next
  case (Cons p al)
  obtain m s where p: "p = (m, s)" by force
  have ih: "(n \<in> set (map fst (streams_of al))) = (\<exists>u. map_of al n = Some (Some u))"
    using Cons by simp
  have sub: "set (map fst (streams_of al)) \<subseteq> set (map fst al)"
    by (rule streams_of_subset)
  have m: "m \<notin> set (map fst al)" using Cons.prems by (simp add: p)
  show ?case
  proof (cases "n = m")
    case True
    then have "n \<notin> set (map fst (streams_of al))" using sub m by auto
    then show ?thesis using True by (cases s) (simp_all add: streams_of_Cons p)
  next
    case False
    then show ?thesis using ih by (cases s) (simp_all add: streams_of_Cons p)
  qed
qed

lemma has_stream_open:
  "distinct (map fst (s3_list c)) \<Longrightarrow> has_stream c n = (n \<in> set (map fst (open_streams c)))"
proof -
  assume d: "distinct (map fst (s3_list c))"
  have "has_stream c n = (\<exists>u. map_of (s3_list c) n = Some (Some u))"
    by (simp add: has_stream_def split: option.splits)
  then show ?thesis unfolding open_streams_def streams_of_names[OF d] .
qed

lemma streams_of_distinct: "distinct (map fst al) \<Longrightarrow> distinct (map fst (streams_of al))"
proof (induction al)
  case Nil
  then show ?case by (simp add: streams_of_def)
next
  case (Cons p al)
  obtain m s where p: "p = (m, s)" by force
  have sub: "set (map fst (streams_of al)) \<subseteq> set (map fst al)"
    by (rule streams_of_subset)
  show ?case using Cons sub by (cases s) (auto simp: streams_of_Cons p)
qed

lemma get_tar_then_adds_open: "has_stream (foldl (tar_add e n) (get_tar c n) ms) n"
proof -
  from get_tar_effect[of c n] obtain u where u: "map_of (s3_list (get_tar c n)) n = Some (Some u)"
    by blast
  from tar_adds_effect[OF u, of e ms] obtain u' where
    "map_of (s3_list (foldl (tar_add e n) (get_tar c n) ms)) n = Some (Some u')" by blast
  then show ?thesis by (simp add: has_stream_def)
qed

lemma perform_has_stream:
  assumes "perform e c k = (c', x)"
  shows "has_stream c' d = (has_stream c d \<or> (d = call_dst k \<and> asks_for_stream e k))"
proof (cases "d = call_dst k")
  case False
  then have "map_of (s3_list c') d = map_of (s3_list c) d" by (rule perform_effect(2)[OF assms])
  then show ?thesis using False by (simp add: has_stream_def)
next
  case True
  define ms where "ms = call_members e k"
  have opened: "c' = foldl (tar_add e (call_dst k)) (get_tar c (call_dst k)) ms \<Longrightarrow>
      asks_for_stream e k \<Longrightarrow> ?thesis"
    using True get_tar_then_adds_open[of e "call_dst k" c ms] by simp
  show ?thesis
  proof (cases k)
    case (Upload_directory label src dst ex inc)
    have "c' = foldl (tar_add e dst) (get_tar c dst) ms"
      using assms Upload_directory by (auto simp: upload_directory_def ms_def split: option.splits)
    then show ?thesis using opened Upload_directory by simp
  next
    case (Add_file label src dst arc optional)
    show ?thesis
    proof (cases "optional \<and> \<not> os_path_exists e src")
      case skip: True
      then have "c' = c" using assms Add_file by (auto simp: add_file_def)
      then show ?thesis using skip Add_file by auto
    next
      case False
      then have "c' = foldl (tar_add e dst) (get_tar c dst) ms"
        using assms Add_file by (auto simp: add_file_def ms_def Let_def split: if_splits)
      then show ?thesis using opened Add_file False by auto
    qed
  next
    case (Add_fileobj label fileobj dst arc)
    have "c' = foldl (tar_add e dst) (get_tar c dst) ms"
      using assms Add_fileobj by (auto simp: add_fileobj_def ms_def Let_def)
    then show ?thesis using opened Add_fileobj by simp
  qed
qed

lemma run_has_stream:
  "run e c ks = (c', None) \<Longrightarrow>
   has_stream c' d = (has_stream c d \<or> d \<in> set (map call_dst (filter (asks_for_stream e) ks)))"
proof (induction ks arbitrary: c)
  case Nil
  then show ?case by simp
next
  case (Cons k ks)
  obtain c1 x where p: "perform e c k = (c1, x)" by force
  from Cons.prems p have r: "run e c1 ks = (c', None)" by (auto split: option.splits)
  have "has_stream c' d = (has_stream c1 d \<or> d \<in> set (map call_dst (filter (asks_for_stream e) ks)))"
    by (rule Cons.IH[OF r])
  then show ?case unfolding perform_has_stream[OF p] by auto
qed

lemma quiescent_no_stream: "quiescent c \<Longrightarrow> \<not> has_stream c d"
  by (simp add: quiescent_def has_stream_open)

lemma quiescent_members: "quiescent c \<Longrightarrow> stream_members c d = []"
  using quiescent_no_stream[of c d]
  by (auto simp: has_stream_def stream_members_def split: option.splits)

text \<open>
  Claim C10. \<^verbatim>\<open>_get_tar\<close> creates an uploader when the destination has no entry or
  when its entry is \<open>None\<close>. So the claim holds from a controller with no open stream (a
  new one, or one just closed) up to the next \<^verbatim>\<open>close\<close>: if none of the calls raises, the
  open streams are then exactly the destinations for which a stream was asked for (a
  missing optional file asks for none), one each, and the archive of a destination
  holds the members of all the calls for that destination, in the order of the calls:
  they all went to the one uploader created at the first of them. No completion has
  been sent. Whether or not a call raised, \<^verbatim>\<open>close\<close> then sends the closing calls of each
  open uploader once, in dictionary order, which adds exactly one completion for each
  of them, and leaves \<open>None\<close> in every entry, so that the controller has no open stream
  again; a second \<^verbatim>\<open>close\<close> right after changes nothing and sends nothing.
\<close>

theorem S3UploadController_one_stream_until_close:
  "quiescent (S3UploadController_init kp cmpr) \<and>
   (quiescent c0 \<longrightarrow>
      (snd (run e c0 calls) = None \<longrightarrow>
         (let c = fst (run e c0 calls)
          in distinct (map fst (s3_list c)) \<and>
             distinct (map fst (open_streams c)) \<and>
             set (map fst (open_streams c)) = set (map call_dst (filter (asks_for_stream e) calls)) \<and>
             (\<forall>d. stream_members c d =
                    concat (map (call_members e) (filter (\<lambda>k. call_dst k = d) calls))) \<and>
             completions (cloud c) = completions (cloud c0))) \<and>
      (let c = fst (run e c0 calls);
           c1 = S3UploadController_close e c
       in s3_list c1 = map (\<lambda>p. (fst p, None)) (s3_list c) \<and>
          quiescent c1 \<and>
          cloud c1 = cloud c @ closing_calls e (open_streams c) \<and>
          completions (cloud c1) = completions (cloud c) @
            map (\<lambda>p. (key (snd p),
                       parts (fst (S3TarUploader_close (s3_etag e) (tar_trailer e (tar (snd p))) (snd p)))))
                (open_streams c) \<and>
          S3UploadController_close e c1 = c1))"
proof (intro conjI impI)
  show "quiescent (S3UploadController_init kp cmpr)"
    by (simp add: quiescent_def open_streams_def streams_of_def init_facts)
next
  assume q: "quiescent c0"
  obtain c x where r: "run e c0 calls = (c, x)" by force
  have d0: "distinct (map fst (s3_list c0))" using q by (simp add: quiescent_def)
  have d: "distinct (map fst (s3_list c))" using run_distinct[OF r d0] .
  {
    assume "snd (run e c0 calls) = None"
    then have r': "run e c0 calls = (c, None)" using r by simp
    note R = run_effect[OF r']
    have m: "\<forall>d. stream_members c d =
                 concat (map (call_members e) (filter (\<lambda>k. call_dst k = d) calls))"
      using R[THEN conjunct1] by (simp add: quiescent_members[OF q])
    have hs: "\<And>n. has_stream c n = (n \<in> set (map call_dst (filter (asks_for_stream e) calls)))"
      using run_has_stream[OF r'] quiescent_no_stream[OF q] by simp
    have o: "set (map fst (open_streams c)) = set (map call_dst (filter (asks_for_stream e) calls))"
      using hs has_stream_open[OF d] by blast
    have od: "distinct (map fst (open_streams c))"
      unfolding open_streams_def by (rule streams_of_distinct[OF d])
    have cc: "completions (cloud c) = completions (cloud c0)"
      by (rule R[THEN conjunct2, THEN conjunct1])
    show "let c = fst (run e c0 calls)
          in distinct (map fst (s3_list c)) \<and>
             distinct (map fst (open_streams c)) \<and>
             set (map fst (open_streams c)) = set (map call_dst (filter (asks_for_stream e) calls)) \<and>
             (\<forall>d. stream_members c d =
                    concat (map (call_members e) (filter (\<lambda>k. call_dst k = d) calls))) \<and>
             completions (cloud c) = completions (cloud c0)"
      unfolding r Let_def fst_conv by (intro conjI d od o m cc)
  }
  define c1 where "c1 = S3UploadController_close e c"
  have c1: "c1 = c\<lparr>s3_list := map closed_entry (s3_list c), cloud := cloud c @ closing_calls e (open_streams c)\<rparr>"
    unfolding c1_def by (rule close_eq[OF d])
  have b1: "s3_list c1 = map (\<lambda>p. (fst p, None)) (s3_list c)"
    by (simp add: c1 closed_entry_def)
  have b2: "quiescent c1"
    using d by (simp add: quiescent_def c1 open_streams_def open_streams_closed closed_entry_def comp_def)
  have b3: "cloud c1 = cloud c @ closing_calls e (open_streams c)" by (simp add: c1)
  have b4: "completions (cloud c1) = completions (cloud c) @
         map (\<lambda>p. (key (snd p),
                    parts (fst (S3TarUploader_close (s3_etag e) (tar_trailer e (tar (snd p))) (snd p)))))
             (open_streams c)"
    by (simp add: b3 completions_append completions_closing)
  have b5: "S3UploadController_close e c1 = c1" unfolding c1_def by (rule close_twice[OF d])
  show "let c = fst (run e c0 calls);
           c1 = S3UploadController_close e c
       in s3_list c1 = map (\<lambda>p. (fst p, None)) (s3_list c) \<and>
          quiescent c1 \<and>
          cloud c1 = cloud c @ closing_calls e (open_streams c) \<and>
          completions (cloud c1) = completions (cloud c) @
            map (\<lambda>p. (key (snd p),
                       parts (fst (S3TarUploader_close (s3_etag e) (tar_trailer e (tar (snd p))) (snd p)))))
                (open_streams c) \<and>
          S3UploadController_close e c1 = c1"
    unfolding r Let_def fst_conv c1_def[symmetric] by (intro conjI b1 b2 b3 b4 b5)
qed

lemma perform_raises: "snd (perform e c k) = raises e k"
  by (cases k) (auto simp: upload_directory_def add_file_def add_fileobj_def Let_def split: option.splits)

lemma run_ok: "\<forall>k \<in> set ks. raises e k = None \<Longrightarrow> snd (run e c ks) = None"
proof (induction ks arbitrary: c)
  case Nil
  then show ?case by simp
next
  case (Cons k ks)
  obtain c1 x where p: "perform e c k = (c1, x)" by force
  have "x = None" using perform_raises[of e c k] Cons.prems by (simp add: p)
  then show ?case using Cons p by simp
qed

lemmas ex_defs = example_env_def example_calls_def S3UploadController_init_def add_file_def add_fileobj_def
  get_tar_def tar_add_def build_dest_name_def path_join_def S3TarUploader_init_def S3TarUploader_write_def
  DEFAULT_CHUNK_SIZE_def

theorem S3UploadController_one_stream_until_close_witness:
  "quiescent (S3UploadController_init ''/srv'' None) \<and>
   snd (run example_env (S3UploadController_init ''/srv'' None) example_calls) = None \<and>
   set (map fst (open_streams (fst (run example_env (S3UploadController_init ''/srv'' None) example_calls)))) =
     {''data''} \<and>
   stream_members (fst (run example_env (S3UploadController_init ''/srv'' None) example_calls)) ''data'' =
     [\<lparr>source = FromFileobj [1, 2], arcname = ''backup_label'', recursive = True\<rparr>,
      \<lparr>source = FromPath ''/pg/global/pg_control'', arcname = ''global/pg_control'', recursive = True\<rparr>] \<and>
   S3UploadController_close example_env
     (S3UploadController_close example_env
        (fst (run example_env (S3UploadController_init ''/srv'' None) example_calls))) =
   S3UploadController_close example_env
     (fst (run example_env (S3UploadController_init ''/srv'' None) example_calls))"
proof -
  note T = S3UploadController_one_stream_until_close
    [of "''/srv''" None "S3UploadController_init ''/srv'' None" example_env example_calls, unfolded Let_def]
  have q: "quiescent (S3UploadController_init ''/srv'' None)" by (rule T[THEN conjunct1])
  have h: "snd (run example_env (S3UploadController_init ''/srv'' None) example_calls) = None"
    by (rule run_ok) (simp add: example_calls_def example_env_def)
  note A = T[THEN conjunct2, rule_format, OF q, THEN conjunct1, rule_format, OF h]
  note B = T[THEN conjunct2, rule_format, OF q, THEN conjunct2]
  have a: "set (map fst (open_streams (fst (run example_env (S3UploadController_init ''/srv'' None) example_calls)))) =
      set (map call_dst (filter (asks_for_stream example_env) example_calls))"
    using A by (elim conjE)
  have b: "stream_members (fst (run example_env (S3UploadController_init ''/srv'' None) example_calls)) ''data'' =
      concat (map (call_members example_env) (filter (\<lambda>k. call_dst k = ''data'') example_calls))"
    using A by (elim conjE) blast
  have c: "S3UploadController_close example_env
     (S3UploadController_close example_env
        (fst (run example_env (S3UploadController_init ''/srv'' None) example_calls))) =
   S3UploadController_close example_env
     (fst (run example_env (S3UploadController_init ''/srv'' None) example_calls))"
    using B by (elim conjE)
  have a': "set (map call_dst (filter (asks_for_stream example_env) example_calls)) = {''data''}"
    by (simp add: example_calls_def example_env_def)
  have b': "concat (map (call_members example_env) (filter (\<lambda>k. call_dst k = ''data'') example_calls)) =
     [\<lparr>source = FromFileobj [1, 2], arcname = ''backup_label'', recursive = True\<rparr>,
      \<lparr>source = FromPath ''/pg/global/pg_control'', arcname = ''global/pg_control'', recursive = True\<rparr>]"
    by (simp add: example_calls_def example_env_def)
  show ?thesis using q h a b c unfolding a' b' by (intro conjI)
qed

lemmas close_defs = S3UploadController_close_def close_name_def S3TarUploader_close_def
  S3TarUploader_flush_def

text \<open>
  Against claim C10 as worded: a call for a destination after \<^verbatim>\<open>close\<close> finds \<open>None\<close>
  in the entry and creates a second uploader under the same key, which holds the
  members of that call only; the next \<^verbatim>\<open>close\<close> sends a second completion for the
  destination.
\<close>

theorem S3UploadController_second_stream_after_close_counterexample:
  "stream_members example_reopened ''data'' =
     [\<lparr>source = FromFileobj [1, 2], arcname = ''backup_label'', recursive = True\<rparr>] \<and>
   completions (cloud example_reopened) =
     [(''srv/data.tar'', [\<lparr>PartNumber = 1, ETag = ''etag''\<rparr>])] \<and>
   completions (cloud (S3UploadController_close example_env example_reopened)) =
     [(''srv/data.tar'', [\<lparr>PartNumber = 1, ETag = ''etag''\<rparr>]),
      (''srv/data.tar'', [\<lparr>PartNumber = 1, ETag = ''etag''\<rparr>])]"
proof -
  define c1 where "c1 = fst (perform example_env (S3UploadController_init ''/srv'' None) example_call)"
  have c1: "c1 = \<lparr>key_prefix = ''srv'', compression = None,
      s3_list = [(''data'', Some \<lparr>key = ''srv/data.tar'', mpu = None, chunk_size = 20971520,
                    buffer = [0], counter = 1, parts = [],
                    tar = [\<lparr>source = FromFileobj [1, 2], arcname = ''backup_label'', recursive = True\<rparr>]\<rparr>)],
      cloud = []\<rparr>"
    by (simp add: c1_def example_call_def ex_defs)
  define c2 where "c2 = S3UploadController_close example_env c1"
  have c2: "c2 = \<lparr>key_prefix = ''srv'', compression = None, s3_list = [(''data'', None)],
      cloud = [create_multipart_upload ''srv/data.tar'', upload_part ''srv/data.tar'' 1 [0, 0, 0],
               complete_multipart_upload ''srv/data.tar'' [\<lparr>PartNumber = 1, ETag = ''etag''\<rparr>]]\<rparr>"
    by (simp add: c2_def c1 close_defs S3TarUploader_write_def example_env_def)
  have c3: "example_reopened = \<lparr>key_prefix = ''srv'', compression = None,
      s3_list = [(''data'', Some \<lparr>key = ''srv/data.tar'', mpu = None, chunk_size = 20971520,
                    buffer = [0], counter = 1, parts = [],
                    tar = [\<lparr>source = FromFileobj [1, 2], arcname = ''backup_label'', recursive = True\<rparr>]\<rparr>)],
      cloud = [create_multipart_upload ''srv/data.tar'', upload_part ''srv/data.tar'' 1 [0, 0, 0],
               complete_multipart_upload ''srv/data.tar'' [\<lparr>PartNumber = 1, ETag = ''etag''\<rparr>]]\<rparr>"
    unfolding example_reopened_def c1_def[symmetric] c2_def[symmetric]
    by (simp add: c2 example_call_def add_fileobj_def get_tar_def tar_add_def build_dest_name_def
        path_join_def S3TarUploader_init_def S3TarUploader_write_def DEFAULT_CHUNK_SIZE_def example_env_def)
  show ?thesis
    by (simp add: c3 stream_members_def close_defs S3TarUploader_write_def example_env_def)
qed

subsection \<open>The calls of \<^verbatim>\<open>backup_copy\<close>\<close>

lemma tablespace_loop_eq:
  "tablespace_loop EXCL ver p ts acc =
     (fst acc @ concat (map (tablespace_excludes p) ts), snd acc @ map (tablespace_call EXCL ver) ts)"
  by (induction ts arbitrary: acc) auto

text \<open>
  The calls of \<^verbatim>\<open>backup_copy\<close> are, in this order: one \<^verbatim>\<open>upload_directory\<close> for each
  tablespace (label its name, source its location, destination its oid), then the one
  for \<^verbatim>\<open>pgdata\<close>, then \<^verbatim>\<open>pg_control\<close> and the configuration files. The exclusion list of
  the \<^verbatim>\<open>pgdata\<close> call ends with what the tablespace loop collected: for every tablespace
  it holds \<open>pg_tblspc/<oid>\<close>, and for every tablespace whose location is \<^verbatim>\<open>pgdata\<close>
  followed by some rest, it holds that rest.
\<close>

lemma backup_copy_calls_in_order:
  "(let ts = (case tablespaces bi of None \<Rightarrow> [] | Some ts \<Rightarrow> ts);
        exclude = concat (map (tablespace_excludes (pgdata bi)) ts)
    in backup_copy_calls PGEXCL EXCL ver bi =
         map (\<lambda>t. Upload_directory (name t) (location t) (str_nat (oid t))
                     (Some (''/*'' # EXCL)) (Some [''/PG_'' @ ver @ ''_*''])) ts
         @ [Upload_directory ''pgdata'' (pgdata bi) ''data'' (Some (PGEXCL @ EXCL @ exclude)) None,
            Add_file ''pg_control'' (pgdata bi @ ''/global/pg_control'') ''data'' ''global/pg_control'' False]
         @ config_file_calls (external_config_files bi) \<and>
       (\<forall>t \<in> set ts.
          ''pg_tblspc/'' @ str_nat (oid t) \<in> set exclude \<and>
          (\<forall>rel. location t = pgdata bi @ rel \<longrightarrow> rel \<in> set exclude)))"
proof -
  define ts where "ts = (case tablespaces bi of None \<Rightarrow> [] | Some ts \<Rightarrow> ts)"
  define exclude where "exclude = concat (map (tablespace_excludes (pgdata bi)) ts)"
  have acc: "(case tablespaces bi of None \<Rightarrow> ([], [])
              | Some ts \<Rightarrow> tablespace_loop EXCL ver (pgdata bi) ts ([], [])) =
             (exclude, map (tablespace_call EXCL ver) ts)"
    by (simp add: ts_def exclude_def tablespace_loop_eq split: option.splits)
  have calls: "backup_copy_calls PGEXCL EXCL ver bi =
         map (\<lambda>t. Upload_directory (name t) (location t) (str_nat (oid t))
                     (Some (''/*'' # EXCL)) (Some [''/PG_'' @ ver @ ''_*''])) ts
         @ [Upload_directory ''pgdata'' (pgdata bi) ''data'' (Some (PGEXCL @ EXCL @ exclude)) None,
            Add_file ''pg_control'' (pgdata bi @ ''/global/pg_control'') ''data'' ''global/pg_control'' False]
         @ config_file_calls (external_config_files bi)"
    unfolding backup_copy_calls_def acc
    by (simp add: pgdata_call_def pg_control_call_def tablespace_call_def)
  have excl: "\<forall>t \<in> set ts.
          ''pg_tblspc/'' @ str_nat (oid t) \<in> set exclude \<and>
          (\<forall>rel. location t = pgdata bi @ rel \<longrightarrow> rel \<in> set exclude)"
  proof (intro ballI conjI allI impI)
    fix t assume t: "t \<in> set ts"
    show "''pg_tblspc/'' @ str_nat (oid t) \<in> set exclude"
      using t by (auto simp: exclude_def tablespace_excludes_def)
    fix rel assume "location t = pgdata bi @ rel"
    then have "rel \<in> set (tablespace_excludes (pgdata bi) t)"
      by (simp add: tablespace_excludes_def startswith_def)
    then show "rel \<in> set exclude" using t by (auto simp: exclude_def)
  qed
  show ?thesis
    unfolding ts_def[symmetric] Let_def exclude_def[symmetric] using calls excl by blast
qed

lemma str_nat_16387: "str_nat 16387 = ''16387''"
  by (simp add: str_nat.simps digit_def)

lemmas run_defs = upload_directory_def upload_directory_members_def directory_members_def
  walk_root_def literal_allowed_def unanchored_def example_tree_def stream_members_def

text \<open>
  Claim C2, evaluated for \<^verbatim>\<open>pgdata = /pg\<close> with one tablespace at \<^verbatim>\<open>/pg/tbs\<close>. The
  \<^verbatim>\<open>pgdata\<close> call is the second one, after the call for the tablespace, and its exclusion
  list holds \<open>/tbs\<close> and \<open>pg_tblspc/16387\<close>, as the claim says. The filter rejects the
  directory \<open>tbs\<close> accordingly. The archive of \<^verbatim>\<open>pgdata\<close> nevertheless receives the
  directory \<^verbatim>\<open>/pg/tbs/PG_9.4_201409291\<close> and the file \<^verbatim>\<open>16384\<close> in it, which belong to
  the tablespace: its contents do travel with the \<^verbatim>\<open>pgdata\<close> job, against the claim and
  against the comment in the tablespace loop.
\<close>

theorem backup_copy_pgdata_job_copies_tablespace:
  "backup_copy_calls [] [] ''9.4'' example_backup_info ! 1 =
     Upload_directory ''pgdata'' ''/pg'' ''data'' (Some [''/tbs'', ''pg_tblspc/16387'']) None \<and>
   call_dst (backup_copy_calls [] [] ''9.4'' example_backup_info ! 0) = ''16387'' \<and>
   \<not> path_allowed example_env (Some [''/tbs'', ''pg_tblspc/16387'']) None ''tbs'' True \<and>
   call_members example_env (backup_copy_calls [] [] ''9.4'' example_backup_info ! 1) =
     [\<lparr>source = FromPath ''/pg'', arcname = ''.'', recursive = False\<rparr>,
      \<lparr>source = FromPath ''/pg/PG_VERSION'', arcname = ''./PG_VERSION'', recursive = True\<rparr>,
      \<lparr>source = FromPath ''/pg/base'', arcname = ''base'', recursive = False\<rparr>,
      \<lparr>source = FromPath ''/pg/base/1'', arcname = ''base/1'', recursive = True\<rparr>,
      \<lparr>source = FromPath ''/pg/tbs/PG_9.4_201409291'', arcname = ''tbs/PG_9.4_201409291'',
       recursive = False\<rparr>,
      \<lparr>source = FromPath ''/pg/tbs/PG_9.4_201409291/16384'',
       arcname = ''tbs/PG_9.4_201409291/16384'', recursive = True\<rparr>] \<and>
   stream_members
     (fst (perform example_env (S3UploadController_init ''/srv'' None)
             (backup_copy_calls [] [] ''9.4'' example_backup_info ! 1))) ''data'' =
     call_members example_env (backup_copy_calls [] [] ''9.4'' example_backup_info ! 1)"
proof -
  have calls: "backup_copy_calls [] [] ''9.4'' example_backup_info =
     [Upload_directory ''tbs'' ''/pg/tbs'' ''16387'' (Some [''/*'']) (Some [''/PG_9.4_*'']),
      Upload_directory ''pgdata'' ''/pg'' ''data'' (Some [''/tbs'', ''pg_tblspc/16387'']) None,
      Add_file ''pg_control'' ''/pg/global/pg_control'' ''data'' ''global/pg_control'' False,
      Add_file ''config_file'' ''/etc/postgresql.conf'' ''data'' ''postgresql.conf'' False,
      Add_file ''ident_file'' ''/etc/pg_ident.conf'' ''data'' ''pg_ident.conf'' True]"
    by (simp add: backup_copy_calls_def example_backup_info_def tablespace_excludes_def startswith_def
        str_nat_16387 basename_def pgdata_call_def pg_control_call_def tablespace_call_def)
  have n: "backup_copy_calls [] [] ''9.4'' example_backup_info ! 1 =
      Upload_directory ''pgdata'' ''/pg'' ''data'' (Some [''/tbs'', ''pg_tblspc/16387'']) None"
    "call_dst (backup_copy_calls [] [] ''9.4'' example_backup_info ! 0) = ''16387''"
    unfolding calls by simp_all
  have r: "\<not> path_allowed example_env (Some [''/tbs'', ''pg_tblspc/16387'']) None ''tbs'' True"
    by (simp add: example_env_def literal_allowed_def unanchored_def)
  have m: "call_members example_env
       (Upload_directory ''pgdata'' ''/pg'' ''data'' (Some [''/tbs'', ''pg_tblspc/16387'']) None) =
     [\<lparr>source = FromPath ''/pg'', arcname = ''.'', recursive = False\<rparr>,
      \<lparr>source = FromPath ''/pg/PG_VERSION'', arcname = ''./PG_VERSION'', recursive = True\<rparr>,
      \<lparr>source = FromPath ''/pg/base'', arcname = ''base'', recursive = False\<rparr>,
      \<lparr>source = FromPath ''/pg/base/1'', arcname = ''base/1'', recursive = True\<rparr>,
      \<lparr>source = FromPath ''/pg/tbs/PG_9.4_201409291'', arcname = ''tbs/PG_9.4_201409291'',
       recursive = False\<rparr>,
      \<lparr>source = FromPath ''/pg/tbs/PG_9.4_201409291/16384'',
       arcname = ''tbs/PG_9.4_201409291/16384'', recursive = True\<rparr>]"
    by (simp add: example_env_def run_defs path_join_def)
  obtain c x where p: "perform example_env (S3UploadController_init ''/srv'' None)
      (Upload_directory ''pgdata'' ''/pg'' ''data'' (Some [''/tbs'', ''pg_tblspc/16387'']) None) = (c, x)"
    by force
  have s: "stream_members c ''data'' =
      call_members example_env
        (Upload_directory ''pgdata'' ''/pg'' ''data'' (Some [''/tbs'', ''pg_tblspc/16387'']) None)"
    using perform_effect(1)[OF p] by (simp add: init_facts)
  show ?thesis unfolding n p fst_conv s m using r by simp
qed

subsection \<open>Optional files\<close>





subsection \<open>A rejected directory is still walked\<close>

text \<open>
  Claim C5, evaluated on the tree of the worked example with the exclusion rule
  \<open>/tbs\<close>. The filter rejects the directory \<open>tbs\<close>, and \<^verbatim>\<open>upload_directory\<close> adds no
  entry for it. \<^verbatim>\<open>continue\<close> only skips the files of that directory: \<^verbatim>\<open>os.walk\<close> goes on
  into \<open>tbs/PG_9.4_201409291\<close>, whose own path no rule names, and the archive receives
  that directory and the file in it. The claim asks for neither of the two to be there.
\<close>

theorem upload_directory_walks_below_rejected_directory:
  "\<not> path_allowed example_env (Some [''/tbs'']) None ''tbs'' True \<and>
   dir_at example_tree [''tbs'', ''PG_9.4_201409291''] = Some (Dir [''16384''] []) \<and>
   fst (upload_directory example_env (S3UploadController_init ''/srv'' None)
          ''pgdata'' ''/pg'' ''data'' (Some [''/tbs'']) None) =
     foldl (tar_add example_env ''data'') (get_tar (S3UploadController_init ''/srv'' None) ''data'')
       [\<lparr>source = FromPath ''/pg'', arcname = ''.'', recursive = False\<rparr>,
        \<lparr>source = FromPath ''/pg/PG_VERSION'', arcname = ''./PG_VERSION'', recursive = True\<rparr>,
        \<lparr>source = FromPath ''/pg/base'', arcname = ''base'', recursive = False\<rparr>,
        \<lparr>source = FromPath ''/pg/base/1'', arcname = ''base/1'', recursive = True\<rparr>,
        \<lparr>source = FromPath ''/pg/tbs/PG_9.4_201409291'', arcname = ''tbs/PG_9.4_201409291'',
         recursive = False\<rparr>,
        \<lparr>source = FromPath ''/pg/tbs/PG_9.4_201409291/16384'',
         arcname = ''tbs/PG_9.4_201409291/16384'', recursive = True\<rparr>]"
  by (simp add: example_env_def upload_directory_def upload_directory_members_def directory_members_def
      walk_root_def literal_allowed_def unanchored_def example_tree_def path_join_def)

subsection \<open>The destination URL\<close>

text \<open>
  Claim C3, with the exception the code raises and with the session it builds. For a
  URL that \<^verbatim>\<open>urlparse\<close> accepts, constructing a \<^verbatim>\<open>CloudInterface\<close> succeeds exactly when
  the parsed scheme is \<open>s3\<close>, the parsed network location is not empty, and neither
  \<^verbatim>\<open>boto3.Session\<close> nor \<^verbatim>\<open>session.resource\<close> raises; the fields of the object are then
  the arguments and the parsed network location and path. When the scheme or the
  network location fails the check the constructor raises \<open>ValueError\<close> with the
  message \<open>Invalid s3 URL address\<close> and the URL, and has not called the SDK by then.
  What \<^verbatim>\<open>urlparse\<close>, \<^verbatim>\<open>boto3.Session\<close> or \<^verbatim>\<open>session.resource\<close> raises leaves the
  constructor unchanged.
\<close>

theorem CloudInterface_init_outcomes:
  "((\<exists>ci. fst (CloudInterface_init up s url enc profile) = Inr ci) =
      (\<exists>p. up url = Inr p \<and> url_scheme p = ''s3'' \<and> url_netloc p \<noteq> [] \<and>
           session_new s profile = None \<and> resource_new s ''s3'' = None)) \<and>
   (\<forall>p ci. up url = Inr p \<longrightarrow> fst (CloudInterface_init up s url enc profile) = Inr ci \<longrightarrow>
      ci = \<lparr>destination_url = url, profile_name = profile, encryption = enc,
            bucket_name = url_netloc p, path = url_path p\<rparr> \<and>
      snd (CloudInterface_init up s url enc profile) = [boto3_Session profile, session_resource ''s3'']) \<and>
   (\<forall>p. up url = Inr p \<longrightarrow> url_scheme p \<noteq> ''s3'' \<or> url_netloc p = [] \<longrightarrow>
      CloudInterface_init up s url enc profile =
        (Inl (ValueError (''Invalid s3 URL address: '' @ url)), [])) \<and>
   (\<forall>p x. up url = Inr p \<longrightarrow> url_scheme p = ''s3'' \<and> url_netloc p \<noteq> [] \<longrightarrow>
      session_new s profile = Some x \<longrightarrow>
      CloudInterface_init up s url enc profile = (Inl x, [boto3_Session profile])) \<and>
   (\<forall>p x. up url = Inr p \<longrightarrow> url_scheme p = ''s3'' \<and> url_netloc p \<noteq> [] \<longrightarrow>
      session_new s profile = None \<longrightarrow> resource_new s ''s3'' = Some x \<longrightarrow>
      CloudInterface_init up s url enc profile =
        (Inl x, [boto3_Session profile, session_resource ''s3''])) \<and>
   (\<forall>x. up url = Inl x \<longrightarrow> CloudInterface_init up s url enc profile = (Inl x, []))"
proof -
  have c1: "(\<exists>ci. fst (CloudInterface_init up s url enc profile) = Inr ci) =
      (\<exists>p. up url = Inr p \<and> url_scheme p = ''s3'' \<and> url_netloc p \<noteq> [] \<and>
           session_new s profile = None \<and> resource_new s ''s3'' = None)"
    by (auto simp: CloudInterface_init_def split: sum.splits option.splits if_splits)
  have c2: "\<forall>p ci. up url = Inr p \<longrightarrow> fst (CloudInterface_init up s url enc profile) = Inr ci \<longrightarrow>
      ci = \<lparr>destination_url = url, profile_name = profile, encryption = enc,
            bucket_name = url_netloc p, path = url_path p\<rparr> \<and>
      snd (CloudInterface_init up s url enc profile) = [boto3_Session profile, session_resource ''s3'']"
    by (auto simp: CloudInterface_init_def split: option.splits if_splits)
  have c3: "\<forall>p. up url = Inr p \<longrightarrow> url_scheme p \<noteq> ''s3'' \<or> url_netloc p = [] \<longrightarrow>
      CloudInterface_init up s url enc profile =
        (Inl (ValueError (''Invalid s3 URL address: '' @ url)), [])"
    by (auto simp: CloudInterface_init_def)
  have c4: "\<forall>p x. up url = Inr p \<longrightarrow> url_scheme p = ''s3'' \<and> url_netloc p \<noteq> [] \<longrightarrow>
      session_new s profile = Some x \<longrightarrow>
      CloudInterface_init up s url enc profile = (Inl x, [boto3_Session profile])"
    by (simp add: CloudInterface_init_def)
  have c5: "\<forall>p x. up url = Inr p \<longrightarrow> url_scheme p = ''s3'' \<and> url_netloc p \<noteq> [] \<longrightarrow>
      session_new s profile = None \<longrightarrow> resource_new s ''s3'' = Some x \<longrightarrow>
      CloudInterface_init up s url enc profile =
        (Inl x, [boto3_Session profile, session_resource ''s3''])"
    by (simp add: CloudInterface_init_def)
  have c6: "\<forall>x. up url = Inl x \<longrightarrow> CloudInterface_init up s url enc profile = (Inl x, [])"
    by (simp add: CloudInterface_init_def)
  show ?thesis using c1 c2 c3 c4 c5 c6 by (intro conjI)
qed

lemma example_urlparse_s3:
  "example_urlparse ''s3://bucket/path/to'' =
     Inr \<lparr>url_scheme = ''s3'', url_netloc = ''bucket'', url_path = ''/path/to''\<rparr>"
  "example_urlparse ''s3:///path'' = Inr \<lparr>url_scheme = ''s3'', url_netloc = [], url_path = ''/path''\<rparr>"
  "example_urlparse ''http://bucket/x'' =
     Inr \<lparr>url_scheme = ''http'', url_netloc = ''bucket'', url_path = ''/x''\<rparr>"
  by (simp_all add: example_urlparse_def)

theorem CloudInterface_init_outcomes_witness:
  "example_urlparse ''s3://bucket/path/to'' =
     Inr \<lparr>url_scheme = ''s3'', url_netloc = ''bucket'', url_path = ''/path/to''\<rparr> \<and>
   session_new example_sdk None = None \<and> resource_new example_sdk ''s3'' = None \<and>
   CloudInterface_init example_urlparse example_sdk ''s3://bucket/path/to'' None None =
     (Inr \<lparr>destination_url = ''s3://bucket/path/to'', profile_name = None, encryption = None,
            bucket_name = ''bucket'', path = ''/path/to''\<rparr>,
      [boto3_Session None, session_resource ''s3'']) \<and>
   example_urlparse ''s3:///path'' = Inr \<lparr>url_scheme = ''s3'', url_netloc = [], url_path = ''/path''\<rparr> \<and>
   CloudInterface_init example_urlparse example_sdk ''s3:///path'' None None =
     (Inl (ValueError ''Invalid s3 URL address: s3:///path''), []) \<and>
   session_new example_sdk (Some ''nobody'') = Some (ProfileNotFound ''nobody'') \<and>
   CloudInterface_init example_urlparse example_sdk ''s3://bucket/path/to'' None (Some ''nobody'') =
     (Inl (ProfileNotFound ''nobody''), [boto3_Session (Some ''nobody'')])"
proof -
  note T = CloudInterface_init_outcomes[where up=example_urlparse and s=example_sdk and enc=None]
  have s: "session_new example_sdk None = None" "resource_new example_sdk ''s3'' = None"
    "session_new example_sdk (Some ''nobody'') = Some (ProfileNotFound ''nobody'')"
    by (simp_all add: example_sdk_def)
  have "\<exists>ci. fst (CloudInterface_init example_urlparse example_sdk ''s3://bucket/path/to'' None None) = Inr ci"
    unfolding T[where url="''s3://bucket/path/to''" and profile=None, THEN conjunct1]
    by (simp add: example_urlparse_s3 s)
  then obtain ci where ci: "fst (CloudInterface_init example_urlparse example_sdk ''s3://bucket/path/to'' None None) = Inr ci"
    by blast
  have a: "CloudInterface_init example_urlparse example_sdk ''s3://bucket/path/to'' None None =
     (Inr \<lparr>destination_url = ''s3://bucket/path/to'', profile_name = None, encryption = None,
            bucket_name = ''bucket'', path = ''/path/to''\<rparr>,
      [boto3_Session None, session_resource ''s3''])"
    using T[where url="''s3://bucket/path/to''" and profile=None, THEN conjunct2, THEN conjunct1,
        rule_format, OF example_urlparse_s3(1) ci] ci
    by (simp add: prod_eq_iff)
  have b: "CloudInterface_init example_urlparse example_sdk ''s3:///path'' None None =
     (Inl (ValueError ''Invalid s3 URL address: s3:///path''), [])"
    using T[where url="''s3:///path''" and profile=None, THEN conjunct2, THEN conjunct2, THEN conjunct1,
        rule_format, OF example_urlparse_s3(2)]
    by simp
  have c: "CloudInterface_init example_urlparse example_sdk ''s3://bucket/path/to'' None (Some ''nobody'') =
     (Inl (ProfileNotFound ''nobody''), [boto3_Session (Some ''nobody'')])"
    using T[where url="''s3://bucket/path/to''" and profile="Some ''nobody''", THEN conjunct2, THEN conjunct2,
        THEN conjunct2, THEN conjunct1, rule_format, OF example_urlparse_s3(1) _ s(3)]
    by simp
  show ?thesis using example_urlparse_s3(1,2) s a b c by (intro conjI)
qed

text \<open>
  Against claim C3 as worded: for a scheme other than \<open>s3\<close> the exception is a
  \<open>ValueError\<close>, not a \<open>ConfigurationError\<close>; and with the scheme \<open>s3\<close> and a bucket the
  construction still fails when the profile is unknown to the SDK.
\<close>

theorem CloudInterface_init_ValueError_and_profile_counterexample:
  "example_urlparse ''http://bucket/x'' =
     Inr \<lparr>url_scheme = ''http'', url_netloc = ''bucket'', url_path = ''/x''\<rparr> \<and>
   CloudInterface_init example_urlparse example_sdk ''http://bucket/x'' None None =
     (Inl (ValueError ''Invalid s3 URL address: http://bucket/x''), []) \<and>
   fst (CloudInterface_init example_urlparse example_sdk ''http://bucket/x'' None None) \<noteq>
     Inl (ConfigurationError ''Invalid s3 URL address: http://bucket/x'') \<and>
   example_urlparse ''s3://bucket/path/to'' =
     Inr \<lparr>url_scheme = ''s3'', url_netloc = ''bucket'', url_path = ''/path/to''\<rparr> \<and>
   fst (CloudInterface_init example_urlparse example_sdk ''s3://bucket/path/to'' None (Some ''nobody'')) =
     Inl (ProfileNotFound ''nobody'')"
  by (simp add: CloudInterface_init_def example_urlparse_s3 example_sdk_def)


subsection \<open>Exit status of \<^verbatim>\<open>main\<close>\<close>

lemma setup_bucket_Exception:
  "raises_Exception_only h \<Longrightarrow> raises_Exception_only c \<Longrightarrow> raises_Exception_only (setup_bucket h c)"
  by (auto simp: setup_bucket_def raises_Exception_only_def split: option.splits)

lemma CloudInterface_init_Exception:
  "raises_Exception_only (exception_of (up url)) \<Longrightarrow> raises_Exception_only (session_new s profile) \<Longrightarrow>
   raises_Exception_only (resource_new s ''s3'') \<Longrightarrow>
   fst (CloudInterface_init up s url enc profile) = Inl x \<Longrightarrow> is_Exception x"
  by (auto simp: CloudInterface_init_def raises_Exception_only_def exception_of_def
      split: sum.splits option.splits if_splits)

lemma main_try_postgres: "snd (main_try w config) = (pg_new w = None)"
  by (auto simp: main_try_def split: option.splits sum.splits)

lemma main_parsed:
  "parse_arguments w args = Inr config \<Longrightarrow> main_try w config = (r, p) \<Longrightarrow>
   main w args =
     (exit_status (case r of None \<Rightarrow> None
                   | Some x \<Rightarrow> if is_Exception x then Some (SystemExit 1) else Some x),
      configure_logging config #
        (case r of None \<Rightarrow> [] | Some x \<Rightarrow> if is_Exception x then [logging_exception x] else []) @
        (if p then [postgres_close] else []))"
  by (cases r) (simp_all add: main_def)

lemma main_events:
  assumes "parse_arguments w args = Inr config"
  shows "hd (snd (main w args)) = configure_logging config"
    "filter (\<lambda>ev. ev = postgres_close) (snd (main w args)) =
       (if pg_new w = None then [postgres_close] else [])"
    "pg_new w = None \<Longrightarrow> last (snd (main w args)) = postgres_close"
proof -
  obtain r p where t: "main_try w config = (r, p)" by force
  have p: "p = (pg_new w = None)" using main_try_postgres[of w config] t by simp
  note m = main_parsed[OF assms t]
  show "hd (snd (main w args)) = configure_logging config" by (simp add: m)
  show "filter (\<lambda>ev. ev = postgres_close) (snd (main w args)) =
       (if pg_new w = None then [postgres_close] else [])"
    by (cases r) (auto simp: m p configure_logging_def Let_def)
  show "pg_new w = None \<Longrightarrow> last (snd (main w args)) = postgres_close"
    by (cases r) (auto simp: m p)
qed

lemma main_status:
  assumes c: "parse_arguments w args = Inr config"
    and t: "main_try w config = (r, p)"
  shows "r = None \<Longrightarrow> fst (main w args) = 0"
    "r = Some (SystemExit n) \<Longrightarrow> fst (main w args) = n"
    "r = Some x \<Longrightarrow> is_Exception x \<Longrightarrow> fst (main w args) = 1"
  by (simp_all add: main_parsed[OF c t] exit_status_def)

text \<open>
  Claim C6, as far as the code carries it by design. When the parser of the arguments
  leaves with \<open>SystemExit\<close>, \<^verbatim>\<open>main\<close> leaves with it, before anything has been opened: the
  status is that of the parser (2 for a usage error). Once the arguments are parsed,
  the logging is set up first, and the connection, once constructed, is closed exactly
  once, as the last step, whatever is raised; when it was never constructed there is
  nothing to close. Suppose further that the calls that leave the program raise, if
  anything, exceptions of class \<^verbatim>\<open>Exception\<close>. Without \<^verbatim>\<open>--test\<close> the exit status is 0
  when the connection object and the cloud interface were constructed, the bucket was
  set up and the backup went through, and 1 otherwise. With \<^verbatim>\<open>--test\<close> it is 1 when
  the connection object or the cloud interface could not be made; otherwise it is 0
  when loading the bucket raised nothing and 1 when it raised
  \<open>EndpointConnectionError\<close>, the store being out of reach.
\<close>

theorem main_exit_status_and_release:
  "(\<forall>x. parse_arguments w args = Inl x \<longrightarrow> main w args = (exit_status (Some x), [])) \<and>
   (\<forall>config. parse_arguments w args = Inr config \<longrightarrow>
      (let ci = fst (CloudInterface_init (urlparse w) (boto3 w) (cfg_destination_url config)
                       (cfg_encryption config) (cfg_profile config))
       in hd (snd (main w args)) = configure_logging config \<and>
          filter (\<lambda>ev. ev = postgres_close) (snd (main w args)) =
            (if pg_new w = None then [postgres_close] else []) \<and>
          (pg_new w = None \<longrightarrow> last (snd (main w args)) = postgres_close) \<and>
          (raises_Exception_only (pg_new w) \<and>
           raises_Exception_only (exception_of (urlparse w (cfg_destination_url config))) \<and>
           raises_Exception_only (session_new (boto3 w) (cfg_profile config)) \<and>
           raises_Exception_only (resource_new (boto3 w) ''s3'') \<and>
           raises_Exception_only (bucket_load w) \<and> raises_Exception_only (head_bucket w) \<and>
           raises_Exception_only (bucket_create w) \<and> raises_Exception_only (backup_run w) \<longrightarrow>
             (\<not> cfg_test config \<longrightarrow>
                fst (main w args) =
                  (if pg_new w = None \<and> \<not> isl ci \<and>
                      setup_bucket (head_bucket w) (bucket_create w) = None \<and> backup_run w = None
                   then 0 else 1)) \<and>
             (cfg_test config \<longrightarrow>
                (pg_new w \<noteq> None \<or> isl ci \<longrightarrow> fst (main w args) = 1) \<and>
                (pg_new w = None \<and> \<not> isl ci \<and> bucket_load w = None \<longrightarrow> fst (main w args) = 0) \<and>
                (pg_new w = None \<and> \<not> isl ci \<and> bucket_load w = Some EndpointConnectionError \<longrightarrow>
                   fst (main w args) = 1)))))"
proof -
  have A: "\<forall>x. parse_arguments w args = Inl x \<longrightarrow> main w args = (exit_status (Some x), [])"
    by (simp add: main_def)
  have B: "hd (snd (main w args)) = configure_logging config \<and>
          filter (\<lambda>ev. ev = postgres_close) (snd (main w args)) =
            (if pg_new w = None then [postgres_close] else []) \<and>
          (pg_new w = None \<longrightarrow> last (snd (main w args)) = postgres_close) \<and>
          (raises_Exception_only (pg_new w) \<and>
           raises_Exception_only (exception_of (urlparse w (cfg_destination_url config))) \<and>
           raises_Exception_only (session_new (boto3 w) (cfg_profile config)) \<and>
           raises_Exception_only (resource_new (boto3 w) ''s3'') \<and>
           raises_Exception_only (bucket_load w) \<and> raises_Exception_only (head_bucket w) \<and>
           raises_Exception_only (bucket_create w) \<and> raises_Exception_only (backup_run w) \<longrightarrow>
             (\<not> cfg_test config \<longrightarrow>
                fst (main w args) =
                  (if pg_new w = None \<and> \<not> isl ci \<and>
                      setup_bucket (head_bucket w) (bucket_create w) = None \<and> backup_run w = None
                   then 0 else 1)) \<and>
             (cfg_test config \<longrightarrow>
                (pg_new w \<noteq> None \<or> isl ci \<longrightarrow> fst (main w args) = 1) \<and>
                (pg_new w = None \<and> \<not> isl ci \<and> bucket_load w = None \<longrightarrow> fst (main w args) = 0) \<and>
                (pg_new w = None \<and> \<not> isl ci \<and> bucket_load w = Some EndpointConnectionError \<longrightarrow>
                   fst (main w args) = 1)))"
    if c: "parse_arguments w args = Inr config"
      and ci: "ci = fst (CloudInterface_init (urlparse w) (boto3 w) (cfg_destination_url config)
                       (cfg_encryption config) (cfg_profile config))"
    for config ci
  proof (intro conjI impI)
    show "hd (snd (main w args)) = configure_logging config" by (rule main_events(1)[OF c])
    show "filter (\<lambda>ev. ev = postgres_close) (snd (main w args)) =
            (if pg_new w = None then [postgres_close] else [])" by (rule main_events(2)[OF c])
    show "pg_new w = None \<Longrightarrow> last (snd (main w args)) = postgres_close"
      by (rule main_events(3)[OF c])
  next
    assume a: "raises_Exception_only (pg_new w) \<and>
           raises_Exception_only (exception_of (urlparse w (cfg_destination_url config))) \<and>
           raises_Exception_only (session_new (boto3 w) (cfg_profile config)) \<and>
           raises_Exception_only (resource_new (boto3 w) ''s3'') \<and>
           raises_Exception_only (bucket_load w) \<and> raises_Exception_only (head_bucket w) \<and>
           raises_Exception_only (bucket_create w) \<and> raises_Exception_only (backup_run w)"
    have ci_exc: "\<And>x. ci = Inl x \<Longrightarrow> is_Exception x"
      using a CloudInterface_init_Exception unfolding ci by blast
    have sb: "raises_Exception_only (setup_bucket (head_bucket w) (bucket_create w))"
      using a by (simp add: setup_bucket_Exception)
    obtain r p where t: "main_try w config = (r, p)" by force
    note S = main_status[OF c t]
    { assume nt: "\<not> cfg_test config"
      show "fst (main w args) =
                  (if pg_new w = None \<and> \<not> isl ci \<and>
                      setup_bucket (head_bucket w) (bucket_create w) = None \<and> backup_run w = None
                   then 0 else 1)"
      proof (cases "pg_new w")
        case (Some x)
        then have "is_Exception x" using a by (simp add: raises_Exception_only_def)
        moreover have "r = Some x" using t Some by (simp add: main_try_def)
        ultimately show ?thesis using S(3) Some by simp
      next
        case None
        show ?thesis
        proof (cases ci)
          case (Inl x)
          then have "r = Some x" using t None by (simp add: main_try_def ci[symmetric])
          then show ?thesis using S(3) ci_exc[OF Inl] Inl by simp
        next
          case (Inr cloud_interface)
          show ?thesis
          proof (cases "setup_bucket (head_bucket w) (bucket_create w)")
            case (Some x)
            then have "is_Exception x" using sb by (simp add: raises_Exception_only_def)
            moreover have "r = Some x" using t None Inr nt Some by (simp add: main_try_def ci[symmetric])
            ultimately show ?thesis using S(3) Some by simp
          next
            case sbNone: None
            have r: "r = backup_run w" using t None Inr nt sbNone by (simp add: main_try_def ci[symmetric])
            show ?thesis
            proof (cases "backup_run w")
              case (Some x)
              then have "is_Exception x" using a by (simp add: raises_Exception_only_def)
              then show ?thesis using S(3) r Some by simp
            next
              case brNone: None
              then show ?thesis using S(1) r None Inr sbNone by simp
            qed
          qed
        qed
      qed }
    { assume tt: "cfg_test config"
      { assume f: "pg_new w \<noteq> None \<or> isl ci"
        show "fst (main w args) = 1"
        proof (cases "pg_new w")
          case (Some x)
          then have "is_Exception x" using a by (simp add: raises_Exception_only_def)
          moreover have "r = Some x" using t Some by (simp add: main_try_def)
          ultimately show ?thesis using S(3) by simp
        next
          case None
          then obtain x where x: "ci = Inl x" using f by (cases ci) auto
          then have "r = Some x" using t None by (simp add: main_try_def ci[symmetric])
          then show ?thesis using S(3) ci_exc[OF x] by simp
        qed }
      { assume f: "pg_new w = None \<and> \<not> isl ci \<and> bucket_load w = None"
        then obtain v where v: "ci = Inr v" by (cases ci) auto
        have "r = Some (SystemExit 0)"
          using t f v tt by (simp add: main_try_def ci[symmetric] test_connectivity_def)
        then show "fst (main w args) = 0" using S(2) by simp }
      { assume f: "pg_new w = None \<and> \<not> isl ci \<and> bucket_load w = Some EndpointConnectionError"
        then obtain v where v: "ci = Inr v" by (cases ci) auto
        have "r = Some (SystemExit 1)"
          using t f v tt by (simp add: main_try_def ci[symmetric] test_connectivity_def)
        then show "fst (main w args) = 1" using S(2) by simp }
    }
  qed
  show ?thesis unfolding Let_def using A B by blast
qed


lemmas main_defs = main_def main_try_def parse_arguments_def configure_logging_def exit_status_def
  CloudInterface_init_def example_urlparse_def example_sdk_def example_argparse_def
  test_connectivity_def setup_bucket_def example_world_def example_config_def

theorem main_exit_status_and_release_witness:
  "parse_arguments example_world [''-t'', ''-v'', ''s3://bucket/path/to'', ''main''] = Inr example_config \<and>
   cfg_test example_config \<and>
   raises_Exception_only (pg_new example_world) \<and>
   raises_Exception_only (exception_of (urlparse example_world (cfg_destination_url example_config))) \<and>
   raises_Exception_only (session_new (boto3 example_world) (cfg_profile example_config)) \<and>
   raises_Exception_only (resource_new (boto3 example_world) ''s3'') \<and>
   raises_Exception_only (bucket_load example_world) \<and> raises_Exception_only (head_bucket example_world) \<and>
   raises_Exception_only (bucket_create example_world) \<and> raises_Exception_only (backup_run example_world) \<and>
   pg_new example_world = None \<and> bucket_load example_world = Some EndpointConnectionError \<and>
   main example_world [''-t'', ''-v'', ''s3://bucket/path/to'', ''main''] =
     (1, [logging_basicConfig 20, postgres_close]) \<and>
   main (example_world\<lparr>bucket_load := None\<rparr>) [''-t'', ''-v'', ''s3://bucket/path/to'', ''main''] =
     (0, [logging_basicConfig 20, postgres_close]) \<and>
   main example_world [''-v'', ''s3://bucket/path/to'', ''main''] =
     (1, [logging_basicConfig 20, logging_exception (OSError ''/pg/base/1''), postgres_close]) \<and>
   main (example_world\<lparr>backup_run := None\<rparr>) [''-v'', ''s3://bucket/path/to'', ''main''] =
     (0, [logging_basicConfig 20, postgres_close]) \<and>
   main (example_world\<lparr>pg_new := Some PostgresConnectionError\<rparr>)
        [''-v'', ''s3://bucket/path/to'', ''main''] =
     (1, [logging_basicConfig 20, logging_exception PostgresConnectionError])"
proof -
  have c: "parse_arguments example_world [''-t'', ''-v'', ''s3://bucket/path/to'', ''main''] = Inr example_config"
    by (simp add: parse_arguments_def example_world_def example_argparse_def)
  have t: "cfg_test example_config" by (simp add: example_config_def)
  have h: "raises_Exception_only (pg_new example_world) \<and>
   raises_Exception_only (exception_of (urlparse example_world (cfg_destination_url example_config))) \<and>
   raises_Exception_only (session_new (boto3 example_world) (cfg_profile example_config)) \<and>
   raises_Exception_only (resource_new (boto3 example_world) ''s3'') \<and>
   raises_Exception_only (bucket_load example_world) \<and> raises_Exception_only (head_bucket example_world) \<and>
   raises_Exception_only (bucket_create example_world) \<and> raises_Exception_only (backup_run example_world)"
    by (simp add: example_world_def example_config_def example_sdk_def example_urlparse_def
        raises_Exception_only_def exception_of_def)
  have p: "pg_new example_world = None" "bucket_load example_world = Some EndpointConnectionError"
    by (simp_all add: example_world_def)
  have i: "\<not> isl (fst (CloudInterface_init (urlparse example_world) (boto3 example_world)
              (cfg_destination_url example_config) (cfg_encryption example_config)
              (cfg_profile example_config)))"
    by (simp add: CloudInterface_init_def example_world_def example_config_def example_sdk_def
        example_urlparse_def)
  note T = main_exit_status_and_release
    [where w=example_world and args="[''-t'', ''-v'', ''s3://bucket/path/to'', ''main'']",
      THEN conjunct2, rule_format, OF c, unfolded Let_def]
  note T4 = T[THEN conjunct2, THEN conjunct2, THEN conjunct2, rule_format, OF h,
      THEN conjunct2, rule_format, OF t, THEN conjunct2, THEN conjunct2, rule_format]
  have "fst (main example_world [''-t'', ''-v'', ''s3://bucket/path/to'', ''main'']) = 1"
    using T4 p i by blast
  moreover have "snd (main example_world [''-t'', ''-v'', ''s3://bucket/path/to'', ''main'']) =
      [logging_basicConfig 20, postgres_close]"
    by (simp add: main_defs Let_def)
  ultimately have a: "main example_world [''-t'', ''-v'', ''s3://bucket/path/to'', ''main''] =
     (1, [logging_basicConfig 20, postgres_close])"
    by (simp add: prod_eq_iff)
  have rest: "main (example_world\<lparr>bucket_load := None\<rparr>) [''-t'', ''-v'', ''s3://bucket/path/to'', ''main''] =
     (0, [logging_basicConfig 20, postgres_close])"
   "main example_world [''-v'', ''s3://bucket/path/to'', ''main''] =
     (1, [logging_basicConfig 20, logging_exception (OSError ''/pg/base/1''), postgres_close])"
   "main (example_world\<lparr>backup_run := None\<rparr>) [''-v'', ''s3://bucket/path/to'', ''main''] =
     (0, [logging_basicConfig 20, postgres_close])"
   "main (example_world\<lparr>pg_new := Some PostgresConnectionError\<rparr>)
        [''-v'', ''s3://bucket/path/to'', ''main''] =
     (1, [logging_basicConfig 20, logging_exception PostgresConnectionError])"
    by (simp_all add: main_defs Let_def)
  show ?thesis using c t h p a rest by (intro conjI) simp_all
qed

text \<open>
  Against claim C6 as worded. Arguments that the parser rejects end \<^verbatim>\<open>main\<close> with status
  2, which is neither 0 nor 1. And with \<^verbatim>\<open>--test\<close>, a store that is reached and answers
  the request for the bucket with an error (here 404, no such bucket) makes
  \<^verbatim>\<open>Bucket.load\<close> raise \<open>ClientError\<close>, which \<^verbatim>\<open>test_connectivity\<close> does not catch: the
  status is 1 although the store is reachable.
\<close>

theorem main_usage_error_and_reachable_store_counterexample:
  "parse_arguments example_world [''--bogus''] = Inl (SystemExit 2) \<and>
   main example_world [''--bogus''] = (2, []) \<and>
   parse_arguments (example_world\<lparr>bucket_load := Some (ClientError ''404'')\<rparr>)
     [''-t'', ''-v'', ''s3://bucket/path/to'', ''main''] = Inr example_config \<and>
   cfg_test example_config \<and>
   test_connectivity (Some (ClientError ''404'')) = Inl (ClientError ''404'') \<and>
   main (example_world\<lparr>bucket_load := Some (ClientError ''404'')\<rparr>)
     [''-t'', ''-v'', ''s3://bucket/path/to'', ''main''] =
     (1, [logging_basicConfig 20, logging_exception (ClientError ''404''), postgres_close])"
  by (simp add: main_defs Let_def)

subsection \<open>Remote status of the file archiver\<close>

text \<open>
  Claim C7. If each of the two \<^verbatim>\<open>get_setting\<close> probes answers or fails with a
  \<open>PostgresConnectionError\<close> or a \<^verbatim>\<open>psycopg2.Error\<close>, then \<^verbatim>\<open>get_remote_status\<close> raises
  nothing and returns a mapping that has the keys \<open>archive_mode\<close> and
  \<open>archive_command\<close>: a setting that was read has its value, one that could not be read
  (its probe failed, or the probe before it did) is \<open>None\<close>; the statistics of
  \<^verbatim>\<open>pg_stat_archiver\<close> are added when the view is there, and left out when it is missing.
\<close>

theorem get_remote_status_does_not_raise:
  "answers_or_fails (get_setting pg ''archive_mode'') \<and>
   answers_or_fails (get_setting pg ''archive_command'') \<longrightarrow>
     get_remote_status pg =
       Inr ([''archive_mode'' \<mapsto>
               (case get_setting pg ''archive_mode'' of Inr v \<Rightarrow> v | Inl x \<Rightarrow> PyNone),
             ''archive_command'' \<mapsto>
               (case get_setting pg ''archive_mode'' of
                  Inl x \<Rightarrow> PyNone
                | Inr v \<Rightarrow> (case get_setting pg ''archive_command'' of
                              Inr v2 \<Rightarrow> v2 | Inl x \<Rightarrow> PyNone))]
            ++ (case get_archiver_stats pg of None \<Rightarrow> Map.empty | Some stats \<Rightarrow> stats)) \<and>
     (\<forall>m. get_remote_status pg = Inr m \<longrightarrow>
          ''archive_mode'' \<in> dom m \<and> ''archive_command'' \<in> dom m)"
proof (intro impI conjI allI)
  assume a: "answers_or_fails (get_setting pg ''archive_mode'') \<and>
   answers_or_fails (get_setting pg ''archive_command'')"
  show eq: "get_remote_status pg =
       Inr ([''archive_mode'' \<mapsto>
               (case get_setting pg ''archive_mode'' of Inr v \<Rightarrow> v | Inl x \<Rightarrow> PyNone),
             ''archive_command'' \<mapsto>
               (case get_setting pg ''archive_mode'' of
                  Inl x \<Rightarrow> PyNone
                | Inr v \<Rightarrow> (case get_setting pg ''archive_command'' of
                              Inr v2 \<Rightarrow> v2 | Inl x \<Rightarrow> PyNone))]
            ++ (case get_archiver_stats pg of None \<Rightarrow> Map.empty | Some stats \<Rightarrow> stats))"
  proof (cases "get_setting pg ''archive_mode''")
    case (Inl x)
    then have "x = PostgresConnectionError \<or> x = Psycopg2Error"
      using a by (simp add: answers_or_fails_def)
    then show ?thesis using Inl
      by (auto simp: get_remote_status_def query_settings_def Let_def fun_upd_twist split: option.splits)
  next
    case (Inr v1)
    show ?thesis
    proof (cases "get_setting pg ''archive_command''")
      case (Inl x)
      then have "x = PostgresConnectionError \<or> x = Psycopg2Error"
        using a by (simp add: answers_or_fails_def)
      then show ?thesis using Inl Inr
        by (auto simp: get_remote_status_def query_settings_def Let_def fun_upd_twist split: option.splits)
    next
      case v2: (Inr v2)
      then show ?thesis using Inr
        by (auto simp: get_remote_status_def query_settings_def Let_def fun_upd_twist split: option.splits)
    qed
  qed
  fix m assume "get_remote_status pg = Inr m"
  then have m: "m = [''archive_mode'' \<mapsto>
               (case get_setting pg ''archive_mode'' of Inr v \<Rightarrow> v | Inl x \<Rightarrow> PyNone),
             ''archive_command'' \<mapsto>
               (case get_setting pg ''archive_mode'' of
                  Inl x \<Rightarrow> PyNone
                | Inr v \<Rightarrow> (case get_setting pg ''archive_command'' of
                              Inr v2 \<Rightarrow> v2 | Inl x \<Rightarrow> PyNone))]
            ++ (case get_archiver_stats pg of None \<Rightarrow> Map.empty | Some stats \<Rightarrow> stats)"
    using eq by simp
  show "''archive_mode'' \<in> dom m" "''archive_command'' \<in> dom m"
    unfolding m by (simp_all)
qed

theorem get_remote_status_does_not_raise_witness:
  "answers_or_fails (get_setting example_postgres ''archive_mode'') \<and>
   answers_or_fails (get_setting example_postgres ''archive_command'') \<and>
   get_remote_status example_postgres =
     Inr [''archive_mode'' \<mapsto> PyStr ''on'', ''archive_command'' \<mapsto> PyNone]"
proof -
  have h: "answers_or_fails (get_setting example_postgres ''archive_mode'') \<and>
   answers_or_fails (get_setting example_postgres ''archive_command'')"
    by (simp add: example_postgres_def answers_or_fails_def)
  show ?thesis
    using get_remote_status_does_not_raise[of example_postgres, rule_format, OF h, THEN conjunct1] h
    by (simp add: example_postgres_def)
qed

subsection \<open>Receiver and server versions\<close>

text \<open>
  Claim C4, on the rule modelled from the spec. With no server version the result is
  \<open>None\<close>, which is not \<open>False\<close>. With one, writing the server as \<open>a.b.p\<close> and the
  receiver as \<open>c.d.q\<close>: if either \<open>major.minor\<close> is below 9.3 the result is true exactly
  when \<open>c.d = a.b\<close>, otherwise exactly when \<open>c.d\<close> is at least \<open>a.b\<close>; the patch numbers
  play no part, and equal \<open>major.minor\<close> are always compatible. The rule gives the
  values expected by \<^verbatim>\<open>test_check_receivexlog_is_compatible\<close> (server 9.2.0 with
  receivers 9.2 and 9.5, server 9.3.0 with 9.5, server 9.5.0 with 9.3, server 9.4.5 with
  9.4.4) and by \<^verbatim>\<open>test_when_streaming_connection_rejected\<close>, and the spec's mirrored case
  of a 9.2 receiver against a 9.5 server.
\<close>

theorem pg_receivexlog_compatible_rule:
  "pg_receivexlog_compatible None r = None \<and>
   pg_receivexlog_compatible (Some (a, b, p)) (c, d, q) =
     Some (if (c < 9 \<or> (c = 9 \<and> d < 3)) \<or> (a < 9 \<or> (a = 9 \<and> b < 3))
           then c = a \<and> d = b
           else a < c \<or> (a = c \<and> b \<le> d)) \<and>
   pg_receivexlog_compatible (Some (a, b, p)) (c, d, q) =
     pg_receivexlog_compatible (Some (a, b, p')) (c, d, q') \<and>
   pg_receivexlog_compatible (Some (a, b, p)) (a, b, q) = Some True \<and>
   pg_receivexlog_compatible (Some (9, 2, 0)) (9, 2, 0) = Some True \<and>
   pg_receivexlog_compatible (Some (9, 2, 0)) (9, 5, 0) = Some False \<and>
   pg_receivexlog_compatible (Some (9, 5, 0)) (9, 2, 0) = Some False \<and>
   pg_receivexlog_compatible (Some (9, 3, 0)) (9, 5, 0) = Some True \<and>
   pg_receivexlog_compatible (Some (9, 5, 0)) (9, 3, 0) = Some False \<and>
   pg_receivexlog_compatible (Some (9, 4, 5)) (9, 4, 4) = Some True \<and>
   pg_receivexlog_compatible None (9, 2, 0) = None \<and>
   pg_receivexlog_compatible None (9, 2, 0) \<noteq> Some False"
  by (auto simp: pg_receivexlog_compatible_def major_minor_def version_less_def)

subsection \<open>The lines of the WAL catalogue\<close>

lemma digit_cases:
  assumes "d < 10"
  shows "digit_val (digit d) = Some d \<and> digit d \<noteq> TAB \<and> digit d \<noteq> NL \<and> digit d \<noteq> CHR ''-''"
proof -
  from assms consider "d = 0" | "d = 1" | "d = 2" | "d = 3" | "d = 4" | "d = 5" | "d = 6"
    | "d = 7" | "d = 8" | "d = 9" by (atomize_elim) arith
  then show ?thesis
    by cases (simp_all add: digit_def digit_val_def TAB_def NL_def)
qed

lemma digits_value_snoc:
  "digits_value acc (xs @ [c]) =
     (case digits_value acc xs of
        None \<Rightarrow> None
      | Some a \<Rightarrow> (case digit_val c of None \<Rightarrow> None | Some d \<Rightarrow> Some (10 * a + d)))"
  by (induction xs arbitrary: acc) (auto split: option.splits)

lemma str_nat_not_Nil: "str_nat n \<noteq> []"
  by (subst str_nat.simps) simp

lemma digits_value_str_nat: "digits_value 0 (str_nat n) = Some n"
proof (induction n rule: str_nat.induct)
  case (1 n)
  show ?case
  proof (cases "n < 10")
    case True
    then show ?thesis using digit_cases[of n] by (subst str_nat.simps) simp
  next
    case False
    have d: "digit_val (digit (n mod 10)) = Some (n mod 10)" using digit_cases[of "n mod 10"] by simp
    have "digits_value 0 (str_nat (n div 10)) = Some (n div 10)" using 1 False by simp
    then show ?thesis using False d
      by (subst str_nat.simps) (simp add: digits_value_snoc)
  qed
qed

lemma str_nat_inj:
  assumes "str_nat a = str_nat b"
  shows "a = b"
proof -
  have "Some a = digits_value 0 (str_nat a)" by (simp only: digits_value_str_nat)
  also have "\<dots> = digits_value 0 (str_nat b)" by (simp only: assms)
  also have "\<dots> = Some b" by (rule digits_value_str_nat)
  finally show ?thesis by (simp only: option.inject)
qed

lemma str_nat_chars: "TAB \<notin> set (str_nat n) \<and> NL \<notin> set (str_nat n) \<and> CHR ''-'' \<notin> set (str_nat n)"
proof (induction n rule: str_nat.induct)
  case (1 n)
  show ?case
  proof (cases "n < 10")
    case True
    then show ?thesis using digit_cases[of n]
      by (subst (1 2 3) str_nat.simps) auto
  next
    case False
    have "TAB \<notin> set (str_nat (n div 10)) \<and> NL \<notin> set (str_nat (n div 10)) \<and>
          CHR ''-'' \<notin> set (str_nat (n div 10))" using 1 False by simp
    then show ?thesis using False digit_cases[of "n mod 10"]
      by (subst (1 2 3) str_nat.simps) auto
  qed
qed

lemma str_int_inj: "str_int i = str_int j \<Longrightarrow> i = j"
proof -
  assume e: "str_int i = str_int j"
  have m: "\<And>a b. CHR ''-'' # str_nat a \<noteq> str_nat b"
  proof
    fix a b assume "CHR ''-'' # str_nat a = str_nat b"
    then have "CHR ''-'' \<in> set (str_nat b)" by (metis list.set_intros(1))
    then show False using str_nat_chars[of b] by simp
  qed
  show "i = j"
  proof (cases "i < 0")
    case True
    show ?thesis
    proof (cases "j < 0")
      case jt: True
      have "str_nat (nat (- i)) = str_nat (nat (- j))" using e True jt by (simp add: str_int_def)
      then have "nat (- i) = nat (- j)" by (rule str_nat_inj)
      then show ?thesis using True jt by simp
    next
      case False
      then show ?thesis using e True m[of "nat (- i)" "nat j"] by (simp add: str_int_def)
    qed
  next
    case False
    show ?thesis
    proof (cases "j < 0")
      case True
      then show ?thesis using e False m[of "nat (- j)" "nat i"] by (simp add: str_int_def)
    next
      case jf: False
      have "str_nat (nat i) = str_nat (nat j)" using e False jf by (simp add: str_int_def)
      then have "nat i = nat j" by (rule str_nat_inj)
      then show ?thesis using False jf by simp
    qed
  qed
qed

lemma plain_str_int: "plain_field (str_int i)"
  using str_nat_chars[of "nat i"] str_nat_chars[of "nat (- i)"]
  by (simp add: plain_field_def str_int_def TAB_def NL_def)

lemma split_on_not_Nil: "split_on s xs \<noteq> []"
  by (induction xs) (auto split: list.splits)

lemma split_on_absent: "s \<notin> set xs \<Longrightarrow> split_on s xs = [xs]"
  by (induction xs) auto

lemma split_on_first: "s \<notin> set xs \<Longrightarrow> split_on s (xs @ s # rest) = xs # split_on s rest"
  by (induction xs) auto

lemma split_lines:
  "\<forall>l \<in> set ls. NL \<notin> set l \<Longrightarrow> split_on NL (concat (map (\<lambda>l. l @ [NL]) ls)) = ls @ [[]]"
  by (induction ls) (auto simp: split_on_first)

lemma xlogdb_lines_concat:
  "\<forall>l \<in> set ls. NL \<notin> set l \<Longrightarrow> xlogdb_lines (concat (map (\<lambda>l. l @ [NL]) ls)) = ls"
  by (simp add: xlogdb_lines_def split_lines)

lemma plain_None: "plain_field ''None''"
  by (simp add: plain_field_def TAB_def NL_def)

lemma to_xlogdb_line_body:
  "to_xlogdb_line st w = butlast (to_xlogdb_line st w) @ [NL]"
  "butlast (to_xlogdb_line st w) =
     wal_name w @ [TAB] @ str_int (wal_size w) @ [TAB] @ st (wal_time w) @ [TAB]
     @ (case wal_compression w of None \<Rightarrow> ''None'' | Some c \<Rightarrow> c)"
  by (simp_all add: to_xlogdb_line_def butlast_append)

lemma line_body_no_NL: "well_formed_wal st w \<Longrightarrow> NL \<notin> set (butlast (to_xlogdb_line st w))"
  using plain_str_int[of "wal_size w"] plain_None
  by (auto simp: to_xlogdb_line_body(2) well_formed_wal_def plain_field_def TAB_def NL_def
      split: option.splits)

lemma split_line_body:
  assumes "well_formed_wal st w"
  shows "split_on TAB (butlast (to_xlogdb_line st w)) =
     [wal_name w, str_int (wal_size w), st (wal_time w),
      (case wal_compression w of None \<Rightarrow> ''None'' | Some c \<Rightarrow> c)]"
proof -
  have n: "TAB \<notin> set (wal_name w)" using assms by (simp add: well_formed_wal_def plain_field_def)
  have s: "TAB \<notin> set (str_int (wal_size w))" "TAB \<notin> set (st (wal_time w))"
    using plain_str_int[of "wal_size w"] assms by (simp_all add: plain_field_def well_formed_wal_def)
  have c: "TAB \<notin> set (case wal_compression w of None \<Rightarrow> ''None'' | Some c \<Rightarrow> c)"
    using assms plain_None by (auto simp: well_formed_wal_def plain_field_def split: option.splits)
  show ?thesis
    unfolding to_xlogdb_line_body(2) append_Cons append_Nil
    by (simp only: split_on_first[OF n] split_on_first[OF s(1)] split_on_first[OF s(2)] split_on_absent[OF c])
qed

lemma foldl_xlogdb_append:
  "foldl (xlogdb_append st) catalogue ws = catalogue @ concat (map (to_xlogdb_line st) ws)"
  by (induction ws arbitrary: catalogue) (auto simp: xlogdb_append_def)

lemma catalogue_lines:
  assumes "\<forall>w \<in> set ws. well_formed_wal st w"
  shows "xlogdb_lines (foldl (xlogdb_append st) [] ws) = map (\<lambda>w. butlast (to_xlogdb_line st w)) ws"
proof -
  have t: "foldl (xlogdb_append st) [] ws =
      concat (map (\<lambda>l. l @ [NL]) (map (\<lambda>w. butlast (to_xlogdb_line st w)) ws))"
    unfolding foldl_xlogdb_append map_map comp_def append_Nil
    using to_xlogdb_line_body(1)[of st] by simp
  have "\<forall>l \<in> set (map (\<lambda>w. butlast (to_xlogdb_line st w)) ws). NL \<notin> set l"
    using assms line_body_no_NL by auto
  then show ?thesis unfolding t by (rule xlogdb_lines_concat)
qed

lemma line_determines_entry:
  assumes i: "inj st" and a: "well_formed_wal st w" and b: "well_formed_wal st v"
    and e: "butlast (to_xlogdb_line st w) = butlast (to_xlogdb_line st v)"
  shows "w = v"
proof -
  have "[wal_name w, str_int (wal_size w), st (wal_time w),
      (case wal_compression w of None \<Rightarrow> ''None'' | Some c \<Rightarrow> c)] =
     [wal_name v, str_int (wal_size v), st (wal_time v),
      (case wal_compression v of None \<Rightarrow> ''None'' | Some c \<Rightarrow> c)]"
    using split_line_body[OF a] split_line_body[OF b] e by simp
  then have n: "wal_name w = wal_name v" and s: "str_int (wal_size w) = str_int (wal_size v)"
    and t: "st (wal_time w) = st (wal_time v)"
    and c: "(case wal_compression w of None \<Rightarrow> ''None'' | Some c \<Rightarrow> c) =
            (case wal_compression v of None \<Rightarrow> ''None'' | Some c \<Rightarrow> c)"
    by simp_all
  have s': "wal_size w = wal_size v" using s by (rule str_int_inj)
  have t': "wal_time w = wal_time v" using t i by (simp add: inj_def)
  have c': "wal_compression w = wal_compression v"
    using c a b by (auto simp: well_formed_wal_def split: option.splits)
  show ?thesis using n s' t' c' by simp
qed

lemma lines_determine_entries:
  assumes i: "inj st"
  shows "\<forall>w \<in> set ws. well_formed_wal st w \<Longrightarrow> \<forall>w \<in> set vs. well_formed_wal st w \<Longrightarrow>
    map (\<lambda>w. butlast (to_xlogdb_line st w)) ws = map (\<lambda>w. butlast (to_xlogdb_line st w)) vs \<Longrightarrow>
    ws = vs"
proof (induction ws arbitrary: vs)
  case Nil
  then show ?case by simp
next
  case (Cons w ws)
  then obtain v vs' where vs: "vs = v # vs'" by (cases vs) auto
  have "w = v" using line_determines_entry[OF i, of w v] Cons.prems vs by simp
  moreover have "ws = vs'" using Cons.IH[of vs'] Cons.prems vs by simp
  ultimately show ?case using vs by simp
qed

text \<open>
  Claim C9, on the line modelled from the spec, for the entries that a line can
  carry. The entry of \<^verbatim>\<open>test_to_xlogdb_line\<close> gives the line the test expects. Take
  entries whose name and compression hold no tab or newline, whose time is written
  without them, and whose compression, if any, is not the word \<open>None\<close>. The line of such
  an entry ends with a newline and has none before; split at tabs, the rest gives
  exactly the name, the size in decimal, the time as written and the compression, or
  \<open>None\<close> for a null one. Appending such entries to a catalogue adds their lines in
  order, and the lines of a catalogue built from nothing are those of its entries, one
  each, in the order of appending. Where different times are written differently, two
  catalogues built from such entries are the same text only when the entries are the
  same, in the same order: the text determines what was appended.
\<close>

theorem xlogdb_lines_determine_entries:
  "to_xlogdb_line str_int example_wal =
     ''test_name'' @ [CHR 0x09] @ ''42'' @ [CHR 0x09] @ ''43'' @ [CHR 0x09] @ ''None'' @ [CHR 0x0A] \<and>
   foldl (xlogdb_append str_time) catalogue ws = catalogue @ concat (map (to_xlogdb_line str_time) ws) \<and>
   ((\<forall>w \<in> set ws. well_formed_wal str_time w) \<longrightarrow>
      (\<forall>w \<in> set ws.
         last (to_xlogdb_line str_time w) = NL \<and> NL \<notin> set (butlast (to_xlogdb_line str_time w)) \<and>
         split_on TAB (butlast (to_xlogdb_line str_time w)) =
           [wal_name w, str_int (wal_size w), str_time (wal_time w),
            (case wal_compression w of None \<Rightarrow> ''None'' | Some c \<Rightarrow> c)]) \<and>
      xlogdb_lines (foldl (xlogdb_append str_time) [] ws) =
        map (\<lambda>w. butlast (to_xlogdb_line str_time w)) ws \<and>
      length (xlogdb_lines (foldl (xlogdb_append str_time) [] ws)) = length ws \<and>
      (inj str_time \<and> (\<forall>w \<in> set vs. well_formed_wal str_time w) \<and>
       foldl (xlogdb_append str_time) [] vs = foldl (xlogdb_append str_time) [] ws \<longrightarrow> vs = ws))"
proof -
  have t: "to_xlogdb_line str_int example_wal =
     ''test_name'' @ [CHR 0x09] @ ''42'' @ [CHR 0x09] @ ''43'' @ [CHR 0x09] @ ''None'' @ [CHR 0x0A]"
    by (simp add: to_xlogdb_line_def example_wal_def str_int_def TAB_def NL_def str_nat.simps digit_def)
  have f: "foldl (xlogdb_append str_time) catalogue ws =
      catalogue @ concat (map (to_xlogdb_line str_time) ws)"
    by (rule foldl_xlogdb_append)
  have g: "(\<forall>w \<in> set ws.
         last (to_xlogdb_line str_time w) = NL \<and> NL \<notin> set (butlast (to_xlogdb_line str_time w)) \<and>
         split_on TAB (butlast (to_xlogdb_line str_time w)) =
           [wal_name w, str_int (wal_size w), str_time (wal_time w),
            (case wal_compression w of None \<Rightarrow> ''None'' | Some c \<Rightarrow> c)]) \<and>
      xlogdb_lines (foldl (xlogdb_append str_time) [] ws) =
        map (\<lambda>w. butlast (to_xlogdb_line str_time w)) ws \<and>
      length (xlogdb_lines (foldl (xlogdb_append str_time) [] ws)) = length ws \<and>
      (inj str_time \<and> (\<forall>w \<in> set vs. well_formed_wal str_time w) \<and>
       foldl (xlogdb_append str_time) [] vs = foldl (xlogdb_append str_time) [] ws \<longrightarrow> vs = ws)"
    if ws: "\<forall>w \<in> set ws. well_formed_wal str_time w"
  proof (intro conjI ballI impI)
    fix w assume w: "w \<in> set ws"
    then have wf: "well_formed_wal str_time w" using ws by simp
    show "last (to_xlogdb_line str_time w) = NL" by (simp add: to_xlogdb_line_def)
    show "NL \<notin> set (butlast (to_xlogdb_line str_time w))" by (rule line_body_no_NL[OF wf])
    show "split_on TAB (butlast (to_xlogdb_line str_time w)) =
           [wal_name w, str_int (wal_size w), str_time (wal_time w),
            (case wal_compression w of None \<Rightarrow> ''None'' | Some c \<Rightarrow> c)]"
      by (rule split_line_body[OF wf])
  next
    show l: "xlogdb_lines (foldl (xlogdb_append str_time) [] ws) =
        map (\<lambda>w. butlast (to_xlogdb_line str_time w)) ws"
      by (rule catalogue_lines[OF ws])
    show "length (xlogdb_lines (foldl (xlogdb_append str_time) [] ws)) = length ws"
      unfolding l by simp
  next
    assume a: "inj str_time \<and> (\<forall>w \<in> set vs. well_formed_wal str_time w) \<and>
       foldl (xlogdb_append str_time) [] vs = foldl (xlogdb_append str_time) [] ws"
    then have i: "inj str_time" and vs: "\<forall>w \<in> set vs. well_formed_wal str_time w"
      and e: "foldl (xlogdb_append str_time) [] vs = foldl (xlogdb_append str_time) [] ws"
      by simp_all
    have "map (\<lambda>w. butlast (to_xlogdb_line str_time w)) vs =
          map (\<lambda>w. butlast (to_xlogdb_line str_time w)) ws"
      using catalogue_lines[OF vs] catalogue_lines[OF ws] e by simp
    then show "vs = ws" by (rule lines_determine_entries[OF i vs ws])
  qed
  show ?thesis using t f g by blast
qed


theorem xlogdb_lines_determine_entries_witness:
  "well_formed_wal str_int example_wal \<and> well_formed_wal str_int example_wal_gz \<and>
   split_on TAB (butlast (to_xlogdb_line str_int example_wal)) =
     [''test_name'', ''42'', ''43'', ''None''] \<and>
   last (to_xlogdb_line str_int example_wal_gz) = NL \<and>
   xlogdb_lines (foldl (xlogdb_append str_int) [] [example_wal, example_wal_gz]) =
     [butlast (to_xlogdb_line str_int example_wal), butlast (to_xlogdb_line str_int example_wal_gz)] \<and>
   length (xlogdb_lines (foldl (xlogdb_append str_int) [] [example_wal, example_wal_gz])) = 2"
proof -
  have h: "well_formed_wal str_int example_wal" "well_formed_wal str_int example_wal_gz"
    using plain_str_int
    by (simp_all add: well_formed_wal_def plain_field_def example_wal_def example_wal_gz_def
        TAB_def NL_def)
  then have hs: "\<forall>w \<in> set [example_wal, example_wal_gz]. well_formed_wal str_int w" by simp
  note T = xlogdb_lines_determine_entries
    [where str_time=str_int and ws="[example_wal, example_wal_gz]" and catalogue="[]"
       and vs="[example_wal, example_wal_gz]",
      THEN conjunct2, THEN conjunct2, THEN mp, OF hs]
  note T1 = T[THEN conjunct1, THEN bspec]
  have "split_on TAB (butlast (to_xlogdb_line str_int example_wal)) =
        [wal_name example_wal, str_int (wal_size example_wal), str_int (wal_time example_wal),
         (case wal_compression example_wal of None \<Rightarrow> ''None'' | Some c \<Rightarrow> c)]"
    using T1[of example_wal] by simp
  then have s: "split_on TAB (butlast (to_xlogdb_line str_int example_wal)) =
      [''test_name'', ''42'', ''43'', ''None'']"
    by (simp add: example_wal_def str_int_def str_nat.simps digit_def)
  have n: "last (to_xlogdb_line str_int example_wal_gz) = NL"
    using T1[of example_wal_gz] by simp
  have l: "xlogdb_lines (foldl (xlogdb_append str_int) [] [example_wal, example_wal_gz]) =
     map (\<lambda>w. butlast (to_xlogdb_line str_int w)) [example_wal, example_wal_gz]"
    by (rule T[THEN conjunct2, THEN conjunct1])
  have k: "length (xlogdb_lines (foldl (xlogdb_append str_int) [] [example_wal, example_wal_gz])) =
     length [example_wal, example_wal_gz]"
    by (rule T[THEN conjunct2, THEN conjunct2, THEN conjunct1])
  show ?thesis using h s n l k by (intro conjI) simp_all
qed

text \<open>
  Against claim C9 as worded: an entry without compression and the same entry with a
  compression called \<open>None\<close> are written as the same line, so that a catalogue that
  holds it cannot give back both.
\<close>

theorem xlogdb_line_of_compression_named_None_counterexample:
  "example_wal \<noteq> example_wal_named_None \<and>
   to_xlogdb_line str_int example_wal = to_xlogdb_line str_int example_wal_named_None \<and>
   foldl (xlogdb_append str_int) [] [example_wal] =
     foldl (xlogdb_append str_int) [] [example_wal_named_None]"
  by (simp add: example_wal_def example_wal_named_None_def to_xlogdb_line_def xlogdb_append_def)

end
